theory Spec2Isabelle
  imports Main "HOL-Library.AList" "HOL-Library.Multiset" "HOL-Library.Char_ord"
    "HOL-Library.List_Lexorder"
begin

section \<open>Ingestion notebook (cmap_dataset): strings, file names, groups\<close>

text \<open>
  Python strings are modelled as \<open>string\<close> (a list of 8-bit characters), read as the
  UTF-8 bytes of the name. Every character the code looks for (\<open>_\<close>, \<open>.\<close>, \<open>/\<close>, the
  letters of \<open>POINT_\<close> and \<open>.png\<close>, the ASCII digits) is ASCII, so splitting and
  prefix/suffix tests agree on bytes and on code points. Raw file contents are byte
  lists as well.
\<close>

type_synonym bytes = "char list"

datatype error = ValueError | IndexError

subsection \<open>The string built-ins the notebook calls\<close>

definition startswith :: "string \<Rightarrow> string \<Rightarrow> bool" where
  "startswith s p = (take (length p) s = p)"

definition endswith :: "string \<Rightarrow> string \<Rightarrow> bool" where
  "endswith s p = (length p \<le> length s \<and> drop (length s - length p) s = p)"

text \<open>\<open>str.lower\<close>, on the ASCII letters. Its result is only tested for the suffix
  \<open>.png\<close>, and no character outside \<open>A\<close>..\<open>Z\<close> lowers to one of \<open>.\<close>, \<open>p\<close>, \<open>n\<close>, \<open>g\<close>.\<close>

definition char_lower :: "char \<Rightarrow> char" where
  "char_lower c =
     (if 65 \<le> (of_char c :: nat) \<and> (of_char c :: nat) \<le> 90
      then char_of ((of_char c :: nat) + 32) else c)"

definition str_lower :: "string \<Rightarrow> string" where
  "str_lower s = map char_lower s"

text \<open>\<open>s.rfind(c)\<close> for a one-character needle: the last index of \<open>c\<close>, or \<open>-1\<close>.\<close>

fun rfind :: "char \<Rightarrow> string \<Rightarrow> int" where
  "rfind c [] = -1"
| "rfind c (x # xs) =
     (let r = rfind c xs in if 0 \<le> r then r + 1 else if x = c then 0 else -1)"

text \<open>
  \<open>os.path.splitext\<close> (posixpath, through \<open>genericpath._splitext\<close> with separator
  \<open>/\<close> and extension separator \<open>.\<close>): the extension starts at the last dot, provided
  that dot comes after the last separator and some character between the separator and
  the dot is not itself a dot (leading dots of the base name do not start an extension).
\<close>

definition splitext :: "string \<Rightarrow> string \<times> string" where
  "splitext p =
     (let sepIndex = rfind (CHR ''/'') p;
          dotIndex = rfind (CHR ''.'') p
      in if sepIndex < dotIndex \<and>
            list_ex (\<lambda>i. p ! i \<noteq> CHR ''.'') [nat (sepIndex + 1)..<nat dotIndex]
         then (take (nat dotIndex) p, drop (nat dotIndex) p)
         else (p, []))"

text \<open>\<open>s.split(c)\<close> with an explicit one-character separator: always at least one part.\<close>

fun str_split :: "char \<Rightarrow> string \<Rightarrow> string list" where
  "str_split c [] = [[]]"
| "str_split c (x # xs) =
     (if x = c then [] # str_split c xs
      else (case str_split c xs of
              [] \<Rightarrow> [[x]]
            | p # ps \<Rightarrow> (x # p) # ps))"

text \<open>\<open>sep.join(parts)\<close>.\<close>

fun str_join :: "string \<Rightarrow> string list \<Rightarrow> string" where
  "str_join sep [] = []"
| "str_join sep [p] = p"
| "str_join sep (p # q # ps) = p @ sep @ str_join sep (q # ps)"

text \<open>
  \<open>int(s)\<close> in base ten on ASCII input: surrounding white space (tab, line feed,
  vertical tab, form feed, carriage return and space; the ASCII separators 28 to 31
  are not stripped by \<open>int\<close>) is removed, one sign is allowed, and at least one digit
  must follow. The interpreter of the notebook
  (CPython 3.11) refuses a literal of more than 4300 digits with the same
  \<open>ValueError\<close>. Digit-grouping underscores cannot occur, since the argument is a part
  of \<open>split('_')\<close>. The decimal digits and spaces outside ASCII that \<open>int\<close> also
  accepts are not modelled: no statement below depends on \<open>py_int\<close> at such input.
\<close>

definition is_space :: "char \<Rightarrow> bool" where
  "is_space c = ((of_char c :: nat) \<in> {9, 10, 11, 12, 13, 32})"

definition is_digit :: "char \<Rightarrow> bool" where
  "is_digit c = (48 \<le> (of_char c :: nat) \<and> (of_char c :: nat) \<le> 57)"

definition digit_val :: "char \<Rightarrow> nat" where
  "digit_val c = (of_char c :: nat) - 48"

definition str_strip :: "string \<Rightarrow> string" where
  "str_strip s = rev (dropWhile is_space (rev (dropWhile is_space s)))"

definition dec_value :: "string \<Rightarrow> nat" where
  "dec_value ds = foldl (\<lambda>a c. 10 * a + digit_val c) 0 ds"

definition py_digits :: "string \<Rightarrow> int option" where
  "py_digits ds =
     (if ds \<noteq> [] \<and> list_all is_digit ds \<and> length ds \<le> 4300
      then Some (int (dec_value ds)) else None)"

definition py_int :: "string \<Rightarrow> int option" where
  "py_int s =
     (case str_strip s of
        [] \<Rightarrow> None
      | c # r \<Rightarrow>
          if c = CHR ''-'' then map_option uminus (py_digits r)
          else if c = CHR ''+'' then py_digits r
          else py_digits (c # r))"

subsection \<open>Parameters of the ingestion notebook\<close>

definition base_dir :: string where
  "base_dir = ''../dataset/dataset_ca_17''"

definition sensors :: "string list" where
  "sensors = [''GNDVI'', ''NDVI'', ''NDVI45'', ''OSAVI'', ''PSRI'', ''RGB'']"

definition crop_mapping :: "(string \<times> int) list" where
  "crop_mapping =
     [(''BARLEY'', 0), (''CANOLA'', 1), (''CORN'', 2), (''MIXEDWOOD'', 3), (''OAT'', 4),
      (''ORCHARD'', 5), (''PASTURE'', 6), (''POTATO'', 7), (''SOYBEAN'', 8),
      (''SPRING_WHEAT'', 9)]"

text \<open>\<open>crop_mapping.get(crop_type, -1)\<close>.\<close>

definition crop_label :: "string \<Rightarrow> int" where
  "crop_label c = (case map_of crop_mapping c of None \<Rightarrow> -1 | Some v \<Rightarrow> v)"

subsection \<open>Records\<close>

text \<open>
  The dictionaries of the two notebooks share their metadata keys, so the records are
  extensions of one another: \<open>keyed\<close> holds what every record has, \<open>labelled\<close> adds the
  crop type, \<open>meta\<close> (the result of \<open>parse_filename\<close>) adds the sensor tag, and
  \<open>grouped\<close> adds one slot per sensor. A slot is \<open>None\<close> where the dictionary holds
  Python's \<open>None\<close>; every grouped record is created with a key for each sensor, so
  reading a sensor slot never raises \<open>KeyError\<close>.
\<close>

record keyed =
  POINT :: int
  DATE :: string
  REGION :: string
  LABEL :: int

record labelled = keyed +
  CROP_TYPE :: string

record meta = labelled +
  SENSOR_TYPE :: string

record grouped = labelled +
  SLOTS :: "string \<Rightarrow> bytes option"

type_synonym group_key = "int \<times> string \<times> string \<times> string"

text \<open>A dictionary in insertion order: an association list with distinct keys.\<close>

type_synonym groups = "(group_key \<times> grouped) list"

subsection \<open>\<open>parse_filename\<close>\<close>

text \<open>
  The result is \<open>Inl ValueError\<close> where \<open>int(parts[1])\<close> raises, \<open>Inr None\<close> where the
  function returns \<open>None\<close>, and \<open>Inr (Some m)\<close> where it returns a dictionary.
  \<open>parts[-1]\<close> is \<open>last parts\<close> and \<open>parts[4:-1]\<close> is \<open>butlast (drop 4 parts)\<close>; both are
  reached only with at least six parts.
\<close>

definition parse_filename :: "string \<Rightarrow> error + meta option" where
  "parse_filename filename =
     (let name = fst (splitext filename);
          parts = str_split (CHR ''_'') name
      in if length parts < 6 \<or> parts ! 0 \<noteq> ''POINT'' then Inr None
         else (case py_int (parts ! 1) of
                 None \<Rightarrow> Inl ValueError
               | Some point \<Rightarrow>
                   let date = parts ! 2;
                       region = parts ! 3;
                       sensor_type = last parts;
                       crop_type = str_join ''_'' (butlast (drop 4 parts));
                       label = crop_label crop_type
                   in Inr (Some \<lparr>POINT = point, DATE = date, REGION = region,
                                 LABEL = label, CROP_TYPE = crop_type,
                                 SENSOR_TYPE = sensor_type\<rparr>)))"

subsection \<open>The scan loop that fills \<open>groups\<close>\<close>

text \<open>
  The file system is what the loop asks of it: \<open>os.path.isdir\<close>, \<open>os.walk\<close> (the list
  of \<open>(root, files)\<close> pairs; the directory names of each triple are not used) and
  \<open>open(path, 'rb').read()\<close>, which is \<open>None\<close> where opening or reading raises. Paths
  are the strings handed to these calls; a relative path is resolved against the
  working directory of the process, as the operating system does.
\<close>

record filesystem =
  isdir :: "string \<Rightarrow> bool"
  os_walk :: "string \<Rightarrow> (string \<times> string list) list"
  read_rb :: "string \<Rightarrow> bytes option"

text \<open>The two \<open>print\<close> diagnostics of the loop, with the values they format.\<close>

datatype diagnostic =
    Error_reading string
  | Invalid_sensor string string

record scan_state =
  groups_of :: groups
  printed :: "diagnostic list"

text \<open>\<open>os.path.join(a, b)\<close> for a relative \<open>b\<close> and a non-empty \<open>a\<close> without a trailing
  separator, which is how the notebook calls it.\<close>

definition path_join :: "string \<Rightarrow> string \<Rightarrow> string" where
  "path_join a b = a @ ''/'' @ b"

text \<open>The group entry created for a new identifier: every sensor slot is \<open>None\<close>.\<close>

definition new_group :: "meta \<Rightarrow> grouped" where
  "new_group m =
     \<lparr>POINT = POINT m, DATE = DATE m, REGION = REGION m, LABEL = LABEL m,
      CROP_TYPE = CROP_TYPE m, SLOTS = (\<lambda>sensor. None)\<rparr>"

text \<open>
  The body of \<open>for file in files\<close>. The loop variable \<open>root\<close> is bound by the
  enclosing \<open>for\<close> and never used by the body: the file is opened as \<open>open(file, 'rb')\<close>,
  under its bare name.
\<close>

definition process_file :: "filesystem \<Rightarrow> string \<Rightarrow> scan_state \<Rightarrow> error + scan_state" where
  "process_file fs file st =
     (if \<not> endswith (str_lower file) ''.png'' then Inr st
      else if \<not> startswith file ''POINT_'' then Inr st
      else (case parse_filename file of
              Inl e \<Rightarrow> Inl e
            | Inr None \<Rightarrow> Inr st
            | Inr (Some m) \<Rightarrow>
                let ident = (POINT m, DATE m, REGION m, CROP_TYPE m)
                in (case read_rb fs file of
                      None \<Rightarrow> Inr (st\<lparr>printed := printed st @ [Error_reading file]\<rparr>)
                    | Some image_bytes \<Rightarrow>
                        let groups1 =
                              (if map_of (groups_of st) ident = None
                               then AList.update ident (new_group m) (groups_of st)
                               else groups_of st)
                        in if SENSOR_TYPE m \<in> set sensors
                           then Inr (st\<lparr>groups_of :=
                                  AList.map_entry ident
                                    (\<lambda>g. g\<lparr>SLOTS := (SLOTS g)(SENSOR_TYPE m := Some image_bytes)\<rparr>)
                                    groups1\<rparr>)
                           else Inr (st\<lparr>groups_of := groups1,
                                  printed := printed st @
                                    [Invalid_sensor (SENSOR_TYPE m) file]\<rparr>))))"

text \<open>\<open>for file in files\<close>: an exception leaves the loop (and the whole cell).\<close>

fun process_files :: "filesystem \<Rightarrow> string list \<Rightarrow> scan_state \<Rightarrow> error + scan_state" where
  "process_files fs [] st = Inr st"
| "process_files fs (file # files) st =
     (case process_file fs file st of
        Inl e \<Rightarrow> Inl e
      | Inr st' \<Rightarrow> process_files fs files st')"

text \<open>\<open>for root, _, files in os.walk(sensor_path)\<close>.\<close>

fun process_walk ::
  "filesystem \<Rightarrow> (string \<times> string list) list \<Rightarrow> scan_state \<Rightarrow> error + scan_state" where
  "process_walk fs [] st = Inr st"
| "process_walk fs ((root, files) # rest) st =
     (case process_files fs files st of
        Inl e \<Rightarrow> Inl e
      | Inr st' \<Rightarrow> process_walk fs rest st')"

text \<open>\<open>for sensor_dir in sensors\<close>, skipping what is not a directory.\<close>

fun process_sensor_dirs ::
  "filesystem \<Rightarrow> string list \<Rightarrow> scan_state \<Rightarrow> error + scan_state" where
  "process_sensor_dirs fs [] st = Inr st"
| "process_sensor_dirs fs (sensor_dir # rest) st =
     (let sensor_path = path_join base_dir sensor_dir
      in if \<not> isdir fs sensor_path then process_sensor_dirs fs rest st
         else (case process_walk fs (os_walk fs sensor_path) st of
                 Inl e \<Rightarrow> Inl e
               | Inr st' \<Rightarrow> process_sensor_dirs fs rest st'))"

definition collect_groups :: "filesystem \<Rightarrow> error + scan_state" where
  "collect_groups fs =
     process_sensor_dirs fs sensors \<lparr>groups_of = [], printed = []\<rparr>"

subsection \<open>The completeness filter\<close>

text \<open>\<open>all(v[sensor] is not None for sensor in sensors)\<close>.\<close>

definition all_sensors_present :: "grouped \<Rightarrow> bool" where
  "all_sensors_present v = list_all (\<lambda>sensor. SLOTS v sensor \<noteq> None) sensors"

text \<open>The dictionary comprehension: the items of \<open>groups\<close>, in order, that pass.\<close>

definition complete_groups :: "groups \<Rightarrow> groups" where
  "complete_groups groups = filter (\<lambda>(k, v). all_sensors_present v) groups"

text \<open>The two numbers of
  \<open>print(f"Complete records: {len(complete_groups)} (Original: {len(groups)})")\<close>.\<close>

definition completeness_report :: "groups \<Rightarrow> nat \<times> nat" where
  "completeness_report groups = (length (complete_groups groups), length groups)"

definition records_of :: "groups \<Rightarrow> grouped list" where
  "records_of groups = map snd (complete_groups groups)"

section \<open>Training notebook (cmap_nn): sequences and the point-disjoint split\<close>

subsection \<open>\<open>create_sequences\<close>\<close>

text \<open>
  A decoded record holds the metadata read from the container and one decoded image
  (or \<open>None\<close>) per sensor. Images are opaque to the code modelled here. The \<open>DATE\<close>
  of a record is a byte string; \<open>sort\<close> compares byte strings lexicographically, byte
  by byte, which is the order of \<open>string\<close> used below.
\<close>

record 'img decoded = keyed +
  IMAGES :: "string \<Rightarrow> 'img option"

text \<open>
  \<open>points[record["POINT"]].append(record)\<close> on a \<open>defaultdict(list)\<close>: a missing key
  starts from the empty list, and a new key goes to the end of the dictionary.
\<close>

definition append_record ::
  "(int \<times> 'img decoded list) list \<Rightarrow> 'img decoded \<Rightarrow> (int \<times> 'img decoded list) list" where
  "append_record points record =
     AList.update (POINT record)
       ((case map_of points (POINT record) of None \<Rightarrow> [] | Some rs \<Rightarrow> rs) @ [record])
       points"

definition group_by_point :: "'img decoded list \<Rightarrow> (int \<times> 'img decoded list) list" where
  "group_by_point records = foldl append_record [] records"

text \<open>
  Python's \<open>xs[i:j]\<close> with step one: a negative bound counts from the end, and both
  bounds are clamped to the list.
\<close>

definition slice_index :: "nat \<Rightarrow> int \<Rightarrow> nat" where
  "slice_index n i = (if i < 0 then nat (max 0 (int n + i)) else min n (nat i))"

definition py_slice :: "'a list \<Rightarrow> int \<Rightarrow> int \<Rightarrow> 'a list" where
  "py_slice xs i j =
     (let lo = slice_index (length xs) i; hi = slice_index (length xs) j
      in take (hi - lo) (drop lo xs))"

text \<open>
  The body of \<open>for point_recs in points.values()\<close>, on the pair \<open>(sequences, labels)\<close>.
  \<open>sort_key\<close> is a stable sort, as \<open>list.sort\<close> is; \<open>range(n)\<close> and \<open>[label] * n\<close> are
  empty for \<open>n \<le> 0\<close>. The window width \<open>sequence_length\<close> is a global of the notebook
  (set to 3); it is a parameter here.
\<close>

definition add_point ::
  "int \<Rightarrow> 'img decoded list list \<times> int list \<Rightarrow> 'img decoded list
     \<Rightarrow> 'img decoded list list \<times> int list" where
  "add_point sequence_length acc recs =
     (let point_recs = sort_key DATE recs
      in if card (set (map LABEL point_recs)) \<noteq> 1 then acc
         else
           let label = LABEL (point_recs ! 0);
               n = int (length point_recs) - sequence_length + 1
           in (fst acc @
                 map (\<lambda>i. py_slice point_recs (int i) (int i + sequence_length)) [0..<nat n],
               snd acc @ replicate (nat n) label))"

definition create_sequences ::
  "int \<Rightarrow> 'img decoded list \<Rightarrow> 'img decoded list list \<times> int list" where
  "create_sequences sequence_length records =
     foldl (add_point sequence_length) ([], []) (map snd (group_by_point records))"

subsection \<open>The library calls of \<open>split_dataset\<close>\<close>

text \<open>
  \<open>split_dataset\<close> calls scikit-learn and imbalanced-learn. What these calls compute
  from floating-point fractions and from pseudo-random generators is taken as a
  parameter:
  \<^item> \<open>set_list\<close>: \<open>list(set(points))\<close>, the points in the iteration order of the hash set;
  \<^item> \<open>n_test\<close> and \<open>n_val\<close>: the held-out counts \<open>ceil(test_size * n)\<close> and
    \<open>ceil(val_size / (1 - test_size) * n)\<close> that \<open>train_test_split\<close> computes for \<open>n\<close>
    samples (both fractions are globals of the notebook, 0.3 and 0.15, and lie in the
    open unit interval that the library requires);
  \<^item> \<open>permutation\<close>: \<open>RandomState(42).permutation(n)\<close>; both calls pass
    \<open>random_state=42\<close>, so each starts a fresh generator and the permutation depends
    on \<open>n\<close> only;
  \<^item> \<open>choice\<close>: \<open>choice(a, size=k, replace=True)\<close> of the generator the oversampler
    uses. \<open>RandomOverSampler\<close> is built without \<open>random_state\<close>, so this is the global
    generator of \<open>numpy.random\<close>, whose state \<open>'g\<close> is an input of the call and is
    returned advanced.
\<close>

record 'g library =
  set_list :: "int list \<Rightarrow> int list"
  n_test :: "nat \<Rightarrow> nat"
  n_val :: "nat \<Rightarrow> nat"
  permutation :: "nat \<Rightarrow> nat list"
  choice :: "'g \<Rightarrow> nat list \<Rightarrow> nat \<Rightarrow> nat list \<times> 'g"

text \<open>What the libraries guarantee of these results: the list of a set enumerates it
  without repetition, a permutation of \<open>n\<close> is a rearrangement of \<open>0, \<dots>, n - 1\<close>, and
  \<open>k\<close> draws from a non-empty pool are \<open>k\<close> elements of the pool.\<close>

definition library_ok :: "'g library \<Rightarrow> bool" where
  "library_ok lib =
     ((\<forall>ps. distinct (set_list lib ps) \<and> set (set_list lib ps) = set ps) \<and>
      (\<forall>n. mset (permutation lib n) = mset [0..<n]) \<and>
      (\<forall>g a k. a \<noteq> [] \<longrightarrow>
         length (fst (choice lib g a k)) = k \<and> set (fst (choice lib g a k)) \<subseteq> set a))"

text \<open>
  \<open>train_test_split(xs, test_size=f, random_state=42)\<close> with \<open>k\<close> the held-out count:
  the training count is \<open>n - k\<close>, an empty training set is a \<open>ValueError\<close>, the first
  \<open>k\<close> entries of the permutation index the test part and the rest the training part.
  The result is \<open>(train, test)\<close>.
\<close>

definition train_test_split ::
  "nat \<Rightarrow> (nat \<Rightarrow> nat list) \<Rightarrow> 'a list \<Rightarrow> error + ('a list \<times> 'a list)" where
  "train_test_split k perm xs =
     (let n = length xs; n_train = n - k
      in if n_train = 0 then Inl ValueError
         else
           let p = perm n
           in Inr (map (\<lambda>i. xs ! i) (take n_train (drop k p)),
                   map (\<lambda>i. xs ! i) (take k p)))"

text \<open>
  \<open>RandomOverSampler(sampling_strategy='not minority').fit_resample(X, y)\<close>.
  The classes are \<open>np.unique(y)\<close> (sorted). Fewer than two classes is a \<open>ValueError\<close>.
  The strategy \<open>'not minority'\<close> targets every class except the minority class (the
  first class, in sorted order, of least count) and asks for as many new samples as the
  class lacks to the majority count. For each targeted class, in sorted order, the new
  samples are drawn with replacement among the positions of that class; the result is
  the original samples followed by the drawn ones.
\<close>

definition np_unique :: "int list \<Rightarrow> int list" where
  "np_unique y = sort (remdups y)"

definition not_minority :: "int list \<Rightarrow> (int \<times> nat) list" where
  "not_minority y =
     (let classes = np_unique y;
          n_sample_majority = Max (set (map (count_list y) classes));
          class_minority = arg_min_list (count_list y) classes
      in map (\<lambda>c. (c, n_sample_majority - count_list y c))
           (filter (\<lambda>c. c \<noteq> class_minority) classes))"

fun bootstrap ::
  "('g \<Rightarrow> nat list \<Rightarrow> nat \<Rightarrow> nat list \<times> 'g) \<Rightarrow> 'g \<Rightarrow> int list \<Rightarrow> (int \<times> nat) list
     \<Rightarrow> nat list \<times> 'g" where
  "bootstrap ch g y [] = ([], g)"
| "bootstrap ch g y ((class_sample, num_samples) # rest) =
     (let target_class_indices = filter (\<lambda>i. y ! i = class_sample) [0..<length y];
          drawn = ch g target_class_indices num_samples;
          more = bootstrap ch (snd drawn) y rest
      in (fst drawn @ fst more, snd more))"

definition fit_resample ::
  "('g \<Rightarrow> nat list \<Rightarrow> nat \<Rightarrow> nat list \<times> 'g) \<Rightarrow> 'g \<Rightarrow> 'x list \<Rightarrow> int list
     \<Rightarrow> error + ('x list \<times> int list \<times> 'g)" where
  "fit_resample ch g X y =
     (if length (np_unique y) \<le> 1 then Inl ValueError
      else
        let drawn = bootstrap ch g y (not_minority y);
            sample_indices = [0..<length y] @ fst drawn
        in Inr (map (\<lambda>i. X ! i) sample_indices, map (\<lambda>i. y ! i) sample_indices, snd drawn))"

subsection \<open>\<open>split_dataset\<close>\<close>

text \<open>\<open>[seq[0]["POINT"] for seq in sequences]\<close>: an empty sequence is an \<open>IndexError\<close>.\<close>

definition sequence_points :: "'img decoded list list \<Rightarrow> error + int list" where
  "sequence_points sequences =
     (if \<exists>seq\<in>set sequences. seq = [] then Inl IndexError
      else Inr (map (\<lambda>seq. POINT (seq ! 0)) sequences))"

text \<open>The two calls of \<open>train_test_split\<close>; the result is
  \<open>(train_points, val_points, test_points)\<close>.\<close>

definition split_points ::
  "'g library \<Rightarrow> int list \<Rightarrow> error + (int list \<times> int list \<times> int list)" where
  "split_points lib points =
     (let unique_points = set_list lib points
      in case train_test_split (n_test lib (length unique_points)) (permutation lib)
                unique_points of
           Inl e \<Rightarrow> Inl e
         | Inr (train_points0, test_points) \<Rightarrow>
             (case train_test_split (n_val lib (length train_points0)) (permutation lib)
                     train_points0 of
                Inl e \<Rightarrow> Inl e
              | Inr (train_points, val_points) \<Rightarrow>
                  Inr (train_points, val_points, test_points)))"

text \<open>\<open>[i for i, p in enumerate(points) if p in part]\<close>.\<close>

definition indices_in :: "int list \<Rightarrow> int list \<Rightarrow> nat list" where
  "indices_in points part = filter (\<lambda>i. points ! i \<in> set part) [0..<length points]"

text \<open>\<open>[xs[i] for i in idx]\<close>: an index past the end is an \<open>IndexError\<close>.\<close>

definition select :: "'a list \<Rightarrow> nat list \<Rightarrow> error + 'a list" where
  "select xs idx =
     (if \<exists>i\<in>set idx. length xs \<le> i then Inl IndexError
      else Inr (map (\<lambda>i. xs ! i) idx))"

text \<open>
  The result is \<open>(X_train, y_train, X_val, y_val, X_test, y_test)\<close>, together with the
  oversampled index list (\<open>resampled_indices.flatten()\<close>) and the state in which the
  call leaves the global generator.
\<close>

record 'img split =
  X_train :: "'img decoded list list"
  y_train :: "int list"
  X_val :: "'img decoded list list"
  y_val :: "int list"
  X_test :: "'img decoded list list"
  y_test :: "int list"
  resampled_indices :: "nat list"

definition split_dataset ::
  "'g library \<Rightarrow> 'g \<Rightarrow> 'img decoded list list \<Rightarrow> int list \<Rightarrow> error + ('img split \<times> 'g)" where
  "split_dataset lib g sequences labels =
     (case sequence_points sequences of
        Inl e \<Rightarrow> Inl e
      | Inr points \<Rightarrow>
     (case split_points lib points of
        Inl e \<Rightarrow> Inl e
      | Inr (train_points, val_points, test_points) \<Rightarrow>
     (let train_indices = indices_in points train_points
      in case select labels train_indices of
        Inl e \<Rightarrow> Inl e
      | Inr train_labels \<Rightarrow>
     (case fit_resample (choice lib) g train_indices train_labels of
        Inl e \<Rightarrow> Inl e
      | Inr (resampled, _, g') \<Rightarrow>
     (case select labels resampled of
        Inl e \<Rightarrow> Inl e
      | Inr ytr \<Rightarrow>
     (case select labels (indices_in points val_points) of
        Inl e \<Rightarrow> Inl e
      | Inr yva \<Rightarrow>
     (case select labels (indices_in points test_points) of
        Inl e \<Rightarrow> Inl e
      | Inr yte \<Rightarrow>
          Inr (\<lparr>X_train = map (\<lambda>i. sequences ! i) resampled,
                y_train = ytr,
                X_val = map (\<lambda>i. sequences ! i) (indices_in points val_points),
                y_val = yva,
                X_test = map (\<lambda>i. sequences ! i) (indices_in points test_points),
                y_test = yte,
                resampled_indices = resampled\<rparr>, g'))))))))"

text \<open>
  The generator of the concrete runs. Its state is the list of 32-bit numbers the
  Mersenne Twister yields next (past the end of the list, zeros).
  \<open>choice(a, size=k, replace=True)\<close> draws \<open>k\<close> positions with \<open>randint(0, len(a))\<close>,
  which for a pool of fewer than \<open>2^32\<close> elements is numpy's masked rejection: with
  \<open>rng = len(a) - 1\<close> and \<open>mask\<close> the least \<open>2^j - 1\<close> that is at least \<open>rng\<close>, the next
  32-bit numbers are masked until one is at most \<open>rng\<close>. A pool of one element
  consumes no number. (An empty pool raises in numpy; \<open>fit_resample\<close> never passes
  one.)
\<close>

fun bit_length :: "nat \<Rightarrow> nat" where
  "bit_length n = (if n = 0 then 0 else Suc (bit_length (n div 2)))"

declare bit_length.simps [simp del]

fun masked_draw :: "nat \<Rightarrow> nat \<Rightarrow> nat list \<Rightarrow> nat \<times> nat list" where
  "masked_draw rng m [] = (0, [])"
| "masked_draw rng m (d # g) =
     (if d mod m \<le> rng then (d mod m, g) else masked_draw rng m g)"

fun draw_many :: "nat \<Rightarrow> nat \<Rightarrow> nat \<Rightarrow> nat list \<Rightarrow> nat list \<times> nat list" where
  "draw_many rng m 0 g = ([], g)"
| "draw_many rng m (Suc k) g =
     (let first = masked_draw rng m g;
          more = draw_many rng m k (snd first)
      in (fst first # fst more, snd more))"

definition draw_choice :: "nat list \<Rightarrow> nat list \<Rightarrow> nat \<Rightarrow> nat list \<times> nat list" where
  "draw_choice g a k =
     (let rng = length a - 1;
          drawn = (if rng = 0 then (replicate k 0, g)
                   else draw_many rng (2 ^ bit_length rng) k g)
      in (map (\<lambda>i. a ! i) (fst drawn), snd drawn))"

text \<open>
  The held-out counts of \<open>train_test_split\<close>, \<open>ceil(f * n)\<close> in IEEE double arithmetic:
  \<open>n\<close> is converted to a double, the product with the double \<open>f\<close> is rounded to
  nearest (ties to even), and the ceiling is taken. A double \<open>f\<close> is given as
  \<open>m / 2^e\<close>; \<open>round_double\<close> rounds a natural numerator to 53 significant bits.
  \<open>test_size = 0.3\<close> is the double \<open>5404319552844595 / 2^54\<close>, and
  \<open>val_size / (1 - test_size) = 0.15 / (1 - 0.3)\<close> evaluates to the double
  \<open>1930114126015927 / 2^53\<close>, slightly more than \<open>3 / 14\<close>.
\<close>

definition round_double :: "nat \<Rightarrow> nat" where
  "round_double a =
     (if bit_length a \<le> 53 then a
      else
        let s = bit_length a - 53;
            q = a div 2 ^ s;
            r = a mod 2 ^ s;
            h = 2 ^ (s - 1)
        in (if h < r \<or> (r = h \<and> odd q) then q + 1 else q) * 2 ^ s)"

definition ceil_times :: "nat \<Rightarrow> nat \<Rightarrow> nat \<Rightarrow> nat" where
  "ceil_times m e n = (round_double (m * round_double n) + 2 ^ e - 1) div 2 ^ e"

definition test_count :: "nat \<Rightarrow> nat" where
  "test_count n = ceil_times 5404319552844595 54 n"

definition val_count :: "nat \<Rightarrow> nat" where
  "val_count n = ceil_times 1930114126015927 53 n"

text \<open>
  \<open>RandomState(42).permutation(n)\<close> for \<open>n\<close> up to 10, as the Mersenne Twister MT19937
  seeded with 42 and numpy's shuffle give it. No run below shuffles more than seven
  points; for larger \<open>n\<close> the table is continued by the identity, only to make the
  function total.
\<close>

definition permutation_42_table :: "(nat \<times> nat list) list" where
  "permutation_42_table =
     [(0, []), (1, [0]), (2, [1, 0]), (3, [0, 1, 2]), (4, [1, 3, 0, 2]),
      (5, [1, 4, 2, 0, 3]), (6, [0, 1, 5, 2, 4, 3]), (7, [0, 1, 5, 2, 4, 3, 6]),
      (8, [1, 5, 0, 7, 2, 4, 3, 6]), (9, [7, 1, 5, 0, 8, 2, 4, 3, 6]),
      (10, [8, 1, 5, 0, 7, 2, 9, 4, 3, 6])]"

definition permutation_42 :: "nat \<Rightarrow> nat list" where
  "permutation_42 n = (case map_of permutation_42_table n of None \<Rightarrow> [0..<n] | Some p \<Rightarrow> p)"

text \<open>Inputs for the concrete runs below.\<close>

definition no_files :: filesystem where
  "no_files = \<lparr>isdir = (\<lambda>p. True), os_walk = (\<lambda>p. []), read_rb = (\<lambda>p. None)\<rparr>"

definition empty_scan :: scan_state where
  "empty_scan = \<lparr>groups_of = [], printed = []\<rparr>"

definition group_with :: "int \<Rightarrow> string list \<Rightarrow> group_key \<times> grouped" where
  "group_with p present =
     ((p, ''D1'', ''R'', ''CORN''),
      \<lparr>POINT = p, DATE = ''D1'', REGION = ''R'', LABEL = 2, CROP_TYPE = ''CORN'',
       SLOTS = (\<lambda>sensor. if sensor \<in> set present then Some ''png'' else None)\<rparr>)"

text \<open>A tree with one sensor directory, \<open>base_dir/RGB\<close>, holding the given files; reading
  a path gives what \<open>rd\<close> gives.\<close>

definition rgb_root :: string where
  "rgb_root = path_join base_dir ''RGB''"

definition tree_fs :: "string list \<Rightarrow> (string \<Rightarrow> bytes option) \<Rightarrow> filesystem" where
  "tree_fs files rd =
     \<lparr>isdir = (\<lambda>p. p = rgb_root),
      os_walk = (\<lambda>p. if p = rgb_root then [(rgb_root, files)] else []),
      read_rb = rd\<rparr>"

text \<open>
  Two notions used to state what \<open>create_sequences\<close> computes: the distinct elements
  of a list in the order of their first occurrence (the key order of the dictionary
  \<open>points\<close>), and what one pass of the loop body adds for one point.
\<close>

definition first_occurrences :: "'a list \<Rightarrow> 'a list" where
  "first_occurrences xs = rev (remdups (rev xs))"

definition point_output ::
  "int \<Rightarrow> 'img decoded list \<Rightarrow> 'img decoded list list \<times> int list" where
  "point_output sequence_length recs = add_point sequence_length ([], []) recs"

text \<open>Decoded records for the concrete runs: point 1 has four dates, all labelled 2
  (CORN); point 2 has two dates with labels 2 and 0.\<close>

definition obs :: "int \<Rightarrow> string \<Rightarrow> int \<Rightarrow> unit decoded" where
  "obs p d l = \<lparr>POINT = p, DATE = d, REGION = ''R'', LABEL = l, IMAGES = (\<lambda>sensor. None)\<rparr>"

definition example_records :: "unit decoded list" where
  "example_records =
     [obs 1 ''D2'' 2, obs 2 ''D1'' 2, obs 1 ''D1'' 2, obs 1 ''D4'' 2, obs 2 ''D2'' 0,
      obs 1 ''D3'' 2]"

text \<open>
  The library on small inputs: CPython lists a set of small non-negative integers in
  ascending order, the held-out counts are computed in double arithmetic, the
  permutation is that of seed 42, and the generator is \<open>draw_choice\<close>.
\<close>

definition example_library :: "nat list library" where
  "example_library =
     \<lparr>set_list = (\<lambda>ps. sort (remdups ps)),
      n_test = test_count,
      n_val = val_count,
      permutation = permutation_42,
      choice = draw_choice\<rparr>"

text \<open>
  Ten sequences of width 3 over seven points: point 1 (label 0), point 2 (label 0),
  point 3 (label 1, two windows), point 4 (label 2, three windows) and points 5, 6, 7
  (labels 2, 1, 0). These are labels and windows that \<open>create_sequences\<close> produces for
  seven single-label points.
\<close>

definition window :: "int \<Rightarrow> int \<Rightarrow> string \<Rightarrow> string \<Rightarrow> string \<Rightarrow> unit decoded list" where
  "window p l d1 d2 d3 = [obs p d1 l, obs p d2 l, obs p d3 l]"

definition example_sequences :: "unit decoded list list" where
  "example_sequences =
     [window 1 0 ''D1'' ''D2'' ''D3'',
      window 2 0 ''D1'' ''D2'' ''D3'',
      window 3 1 ''D1'' ''D2'' ''D3'', window 3 1 ''D2'' ''D3'' ''D4'',
      window 4 2 ''D1'' ''D2'' ''D3'', window 4 2 ''D2'' ''D3'' ''D4'',
      window 4 2 ''D3'' ''D4'' ''D5'',
      window 5 2 ''D1'' ''D2'' ''D3'',
      window 6 1 ''D1'' ''D2'' ''D3'',
      window 7 0 ''D1'' ''D2'' ''D3'']"

definition example_labels :: "int list" where
  "example_labels = [0, 0, 1, 1, 2, 2, 2, 2, 1, 0]"

text \<open>
  What the run of \<open>split_dataset\<close> on these sequences asks of scikit-learn and of the
  set: the seven points in ascending order, \<open>ceil(0.3 * 7) = 3\<close> test points,
  \<open>ceil(0.15 / (1 - 0.3) * 4) = 1\<close> validation point, and the permutations of seven
  and of four elements that \<open>RandomState(42)\<close> yields. With them, points 1, 2, 6 are
  held out for test, point 5 for validation, and points 7, 3, 4 train.
\<close>

definition library_on_example :: "'g library \<Rightarrow> bool" where
  "library_on_example lib =
     (set_list lib [1, 2, 3, 3, 4, 4, 4, 5, 6, 7] = [1, 2, 3, 4, 5, 6, 7] \<and>
      n_test lib 7 = 3 \<and> n_val lib 4 = 1 \<and>
      permutation lib 7 = [0, 1, 5, 2, 4, 3, 6] \<and>
      permutation lib 4 = [1, 3, 0, 2])"

text \<open>\<open>split_dataset\<close> from the point lists on: the oversampling of the training part
  and the selection of the six results.\<close>

definition split_with_points ::
  "('g \<Rightarrow> nat list \<Rightarrow> nat \<Rightarrow> nat list \<times> 'g) \<Rightarrow> 'g \<Rightarrow> 'img decoded list list \<Rightarrow> int list
     \<Rightarrow> int list \<Rightarrow> int list \<Rightarrow> int list \<Rightarrow> int list \<Rightarrow> error + ('img split \<times> 'g)" where
  "split_with_points ch g sequences labels points train_points val_points test_points =
     (let train_indices = indices_in points train_points
      in case select labels train_indices of
        Inl e \<Rightarrow> Inl e
      | Inr train_labels \<Rightarrow>
     (case fit_resample ch g train_indices train_labels of
        Inl e \<Rightarrow> Inl e
      | Inr (resampled, _, g') \<Rightarrow>
     (case select labels resampled of
        Inl e \<Rightarrow> Inl e
      | Inr ytr \<Rightarrow>
     (case select labels (indices_in points val_points) of
        Inl e \<Rightarrow> Inl e
      | Inr yva \<Rightarrow>
     (case select labels (indices_in points test_points) of
        Inl e \<Rightarrow> Inl e
      | Inr yte \<Rightarrow>
          Inr (\<lparr>X_train = map (\<lambda>i. sequences ! i) resampled,
                y_train = ytr,
                X_val = map (\<lambda>i. sequences ! i) (indices_in points val_points),
                y_val = yva,
                X_test = map (\<lambda>i. sequences ! i) (indices_in points test_points),
                y_test = yte,
                resampled_indices = resampled\<rparr>, g'))))))"

text \<open>
  Python's \<open>str(n)\<close> for a natural number: its decimal digits, most significant first,
  without leading zeros.
\<close>

definition digit_char :: "nat \<Rightarrow> char" where
  "digit_char d = char_of (48 + d)"

fun decimal :: "nat \<Rightarrow> string" where
  "decimal n = (if n < 10 then [digit_char n] else decimal (n div 10) @ [digit_char (n mod 10)])"

declare decimal.simps [simp del]

text \<open>The oversampled index list and the training labels of a result, when there is one.\<close>

definition train_indices_of :: "error + ('img split \<times> 'g) \<Rightarrow> nat list option" where
  "train_indices_of res =
     (case res of Inl e \<Rightarrow> None | Inr (out, g) \<Rightarrow> Some (resampled_indices out))"

definition train_labels_of :: "error + ('img split \<times> 'g) \<Rightarrow> int list option" where
  "train_labels_of res =
     (case res of Inl e \<Rightarrow> None | Inr (out, g) \<Rightarrow> Some (y_train out))"

section \<open>The scan loop skips what is not named like a PNG observation\<close>

text \<open>
  Claim C10. A file whose lower-cased name does not end with \<open>.png\<close>, or whose name
  does not start with \<open>POINT_\<close>, is skipped before it is parsed or read: whatever the
  file system holds and whatever parsing the name would do, processing the file
  returns the scan state unchanged (groups and diagnostics), and the scan of a file
  list containing it ends as the scan of the list without it.
\<close>

theorem process_file_skips_non_png:
  assumes "\<not> endswith (str_lower file) ''.png'' \<or> \<not> startswith file ''POINT_''"
  shows "process_file fs file st = Inr st \<and>
         process_files fs (before @ file # after) st = process_files fs (before @ after) st"
proof -
  have skip: "process_file fs file s = Inr s" for s
    using assms by (auto simp: process_file_def)
  show ?thesis
  proof
    show "process_file fs file st = Inr st" by (rule skip)
    show "process_files fs (before @ file # after) st = process_files fs (before @ after) st"
      by (induction before arbitrary: st) (simp_all add: skip split: sum.splits)
  qed
qed

text \<open>The skipped name of this run would make \<open>parse_filename\<close> raise, had it been parsed.\<close>

theorem process_file_skips_non_png_witness:
  "\<not> endswith (str_lower ''POINT_abc_D1_R_CORN_RGB.jpg'') ''.png'' \<and>
   parse_filename ''POINT_abc_D1_R_CORN_RGB.jpg'' = Inl ValueError \<and>
   process_file no_files ''POINT_abc_D1_R_CORN_RGB.jpg'' empty_scan = Inr empty_scan \<and>
   process_files no_files ([] @ ''POINT_abc_D1_R_CORN_RGB.jpg'' # [''notes.txt'']) empty_scan =
     process_files no_files ([] @ [''notes.txt'']) empty_scan"
proof -
  have e: "\<not> endswith (str_lower ''POINT_abc_D1_R_CORN_RGB.jpg'') ''.png''"
    by (simp add: endswith_def str_lower_def char_lower_def)
  then have h: "\<not> endswith (str_lower ''POINT_abc_D1_R_CORN_RGB.jpg'') ''.png'' \<or>
           \<not> startswith ''POINT_abc_D1_R_CORN_RGB.jpg'' ''POINT_''"
    by (rule disjI1)
  have p: "parse_filename ''POINT_abc_D1_R_CORN_RGB.jpg'' = Inl ValueError"
    by code_simp
  from e p process_file_skips_non_png [OF h] show ?thesis by blast
qed

section \<open>The completeness filter\<close>

lemma length_filter_values:
  assumes "distinct (map fst xs)"
  shows "length (filter (\<lambda>(k, v). P v) xs) = card {k. \<exists>v. map_of xs k = Some v \<and> P v}"
proof -
  have d: "distinct (map fst (filter (\<lambda>(k, v). P v) xs))"
    using assms by (rule distinct_map_filter)
  have "{k. \<exists>v. map_of xs k = Some v \<and> P v} = set (map fst (filter (\<lambda>(k, v). P v) xs))"
    using assms by (auto simp: image_iff dest: map_of_SomeD intro!: bexI)
  then show ?thesis using d distinct_card by (metis length_map)
qed

lemma map_of_filter_values:
  assumes "distinct (map fst xs)"
  shows "map_of (filter (\<lambda>(k, v). P v) xs) k =
           (case map_of xs k of None \<Rightarrow> None | Some v \<Rightarrow> if P v then Some v else None)"
  using assms
  by (induction xs) (auto split: option.splits simp: rev_image_eqI dest!: map_of_SomeD)

text \<open>
  Claim C8. On a grouped-record mapping (a dictionary: distinct keys), the filter
  returns exactly the sub-mapping of the groups that have a blob for every required
  sensor: a key is kept, with its record, iff its record is complete. So with \<open>n\<close>
  groups of which \<open>k\<close> are complete, the result has \<open>k\<close> entries, and the reported pair
  is \<open>(k, n)\<close> (complete, original). The filter is a function of its argument alone.
\<close>

theorem complete_groups_exact:
  assumes "distinct (map fst groups)"
  shows "map_of (complete_groups groups) =
           (\<lambda>key. case map_of groups key of
                    None \<Rightarrow> None
                  | Some v \<Rightarrow> if (\<forall>s\<in>set sensors. SLOTS v s \<noteq> None) then Some v else None) \<and>
         distinct (map fst (complete_groups groups)) \<and>
         length (complete_groups groups) =
           card {key. \<exists>v. map_of groups key = Some v \<and> (\<forall>s\<in>set sensors. SLOTS v s \<noteq> None)} \<and>
         completeness_report groups =
           (card {key. \<exists>v. map_of groups key = Some v \<and> (\<forall>s\<in>set sensors. SLOTS v s \<noteq> None)},
            card (dom (map_of groups)))"
proof -
  have p: "all_sensors_present v = (\<forall>s\<in>set sensors. SLOTS v s \<noteq> None)" for v
    by (simp add: all_sensors_present_def list_all_iff)
  have cg: "complete_groups groups =
              filter (\<lambda>(k, v). \<forall>s\<in>set sensors. SLOTS v s \<noteq> None) groups"
    by (simp add: complete_groups_def p)
  have n: "length groups = card (dom (map_of groups))"
    using assms by (metis distinct_card dom_map_of_conv_image_fst length_map list.set_map)
  have m: "map_of (complete_groups groups) key =
             (case map_of groups key of
                None \<Rightarrow> None
              | Some v \<Rightarrow> if (\<forall>s\<in>set sensors. SLOTS v s \<noteq> None) then Some v else None)" for key
    unfolding cg using assms by (rule map_of_filter_values)
  have d: "distinct (map fst (complete_groups groups))"
    unfolding cg using assms by (rule distinct_map_filter)
  have l: "length (complete_groups groups) =
             card {key. \<exists>v. map_of groups key = Some v \<and> (\<forall>s\<in>set sensors. SLOTS v s \<noteq> None)}"
    unfolding cg using assms by (rule length_filter_values)
  have r: "completeness_report groups =
             (card {key. \<exists>v. map_of groups key = Some v \<and> (\<forall>s\<in>set sensors. SLOTS v s \<noteq> None)},
              card (dom (map_of groups)))"
    using l n by (simp add: completeness_report_def)
  from m d l r show ?thesis by (simp add: fun_eq_iff)
qed

text \<open>Three groups, the second with one sensor only: two are kept, and \<open>(2, 3)\<close> is
  reported.\<close>

theorem complete_groups_exact_witness:
  "distinct (map fst [group_with 1 sensors, group_with 2 [''RGB''], group_with 3 sensors]) \<and>
   map fst (complete_groups [group_with 1 sensors, group_with 2 [''RGB''], group_with 3 sensors]) =
     [(1, ''D1'', ''R'', ''CORN''), (3, ''D1'', ''R'', ''CORN'')] \<and>
   completeness_report [group_with 1 sensors, group_with 2 [''RGB''], group_with 3 sensors] = (2, 3) \<and>
   card {key. \<exists>v. map_of [group_with 1 sensors, group_with 2 [''RGB''], group_with 3 sensors] key
                     = Some v \<and> (\<forall>s\<in>set sensors. SLOTS v s \<noteq> None)} = 2 \<and>
   card (dom (map_of [group_with 1 sensors, group_with 2 [''RGB''], group_with 3 sensors])) = 3"
proof -
  have h: "distinct (map fst [group_with 1 sensors, group_with 2 [''RGB''], group_with 3 sensors])"
    by (simp add: group_with_def)
  have k: "map fst (complete_groups
             [group_with 1 sensors, group_with 2 [''RGB''], group_with 3 sensors]) =
           [(1, ''D1'', ''R'', ''CORN''), (3, ''D1'', ''R'', ''CORN'')]"
    by (simp add: complete_groups_def all_sensors_present_def group_with_def sensors_def)
  have e: "completeness_report
             [group_with 1 sensors, group_with 2 [''RGB''], group_with 3 sensors] = (2, 3)"
    by (simp add: completeness_report_def complete_groups_def all_sensors_present_def
        group_with_def sensors_def)
  from complete_groups_exact [OF h] e have
    "card {key. \<exists>v. map_of [group_with 1 sensors, group_with 2 [''RGB''], group_with 3 sensors] key
                     = Some v \<and> (\<forall>s\<in>set sensors. SLOTS v s \<noteq> None)} = 2"
    "card (dom (map_of [group_with 1 sensors, group_with 2 [''RGB''], group_with 3 sensors])) = 3"
    by simp_all
  with h k e show ?thesis by blast
qed

section \<open>\<open>parse_filename\<close> on well-formed names\<close>

lemma rfind_absent: "c \<notin> set s \<Longrightarrow> rfind c s = -1"
  by (induction s) (auto simp: Let_def)

lemma rfind_last: "c \<notin> set b \<Longrightarrow> rfind c (a @ c # b) = int (length a)"
  by (induction a) (auto simp: Let_def rfind_absent)

lemma splitext_last_dot:
  assumes "CHR ''/'' \<notin> set stem" "CHR ''/'' \<notin> set ext" "CHR ''.'' \<notin> set ext"
    and "stem \<noteq> []" "hd stem \<noteq> CHR ''.''"
  shows "splitext (stem @ CHR ''.'' # ext) = (stem, CHR ''.'' # ext)"
proof -
  have s: "rfind (CHR ''/'') (stem @ CHR ''.'' # ext) = -1"
    using assms by (intro rfind_absent) auto
  have d: "rfind (CHR ''.'') (stem @ CHR ''.'' # ext) = int (length stem)"
    using assms by (intro rfind_last) auto
  have "0 \<in> set [0..<length stem]" using assms by simp
  moreover have "(stem @ CHR ''.'' # ext) ! 0 \<noteq> CHR ''.''"
    using assms by (cases stem) auto
  ultimately have e: "list_ex (\<lambda>i. (stem @ CHR ''.'' # ext) ! i \<noteq> CHR ''.'') [0..<length stem]"
    unfolding list_ex_iff by blast
  show ?thesis
    unfolding splitext_def s d Let_def using e by simp
qed

lemma str_split_nonempty: "str_split c s \<noteq> []"
  by (induction s) (auto split: list.splits)

lemma str_split_no_sep: "c \<notin> set a \<Longrightarrow> str_split c a = [a]"
  by (induction a) (auto split: list.splits)

lemma str_split_first: "c \<notin> set a \<Longrightarrow> str_split c (a @ c # rest) = a # str_split c rest"
  by (induction a) (auto split: list.splits)

lemma str_split_last: "c \<notin> set s \<Longrightarrow> str_split c (x @ c # s) = str_split c x @ [s]"
  by (induction x) (auto split: list.splits simp: str_split_no_sep str_split_nonempty)

lemma str_join_split: "str_join [c] (str_split c s) = s"
proof (induction s)
  case Nil
  then show ?case by simp
next
  case (Cons x s)
  show ?case
  proof (cases "x = c")
    case True
    then show ?thesis using Cons str_split_nonempty[of c s]
      by (cases "str_split c s") auto
  next
    case False
    obtain p ps where e: "str_split c s = p # ps"
      using str_split_nonempty[of c s] by (cases "str_split c s") auto
    with Cons False show ?thesis by (cases ps) auto
  qed
qed

lemma digits_not_space: "is_digit c \<Longrightarrow> \<not> is_space c"
  by (auto simp: is_digit_def is_space_def)

lemma str_strip_digits:
  assumes "list_all is_digit p"
  shows "str_strip p = p"
proof (cases p rule: rev_cases)
  case Nil
  then show ?thesis by (simp add: str_strip_def)
next
  case (snoc ys y)
  have a: "dropWhile is_space p = p"
    using assms by (cases p) (auto simp: digits_not_space)
  have "\<not> is_space y" using assms snoc by (simp add: digits_not_space)
  then have b: "dropWhile is_space (rev p) = rev p"
    using snoc by simp
  show ?thesis by (simp add: str_strip_def a b)
qed

lemma py_int_digits:
  assumes "p \<noteq> []" "list_all is_digit p" "length p \<le> 4300"
  shows "py_int p = Some (int (dec_value p))"
proof -
  obtain c r where p: "p = c # r" using assms(1) by (cases p) auto
  have "is_digit c" using assms(2) p by simp
  then have "c \<noteq> CHR ''-''" "c \<noteq> CHR ''+''"
    by (auto simp: is_digit_def)
  then show ?thesis
    using assms by (simp add: py_int_def str_strip_digits p py_digits_def)
qed

lemma digits_no_underscore: "list_all is_digit p \<Longrightarrow> CHR ''_'' \<notin> set p"
  by (auto simp: list_all_iff is_digit_def)

lemma crop_label_table:
  "crop_label c =
     (if c = ''BARLEY'' then 0 else if c = ''CANOLA'' then 1 else if c = ''CORN'' then 2
      else if c = ''MIXEDWOOD'' then 3 else if c = ''OAT'' then 4
      else if c = ''ORCHARD'' then 5 else if c = ''PASTURE'' then 6
      else if c = ''POTATO'' then 7 else if c = ''SOYBEAN'' then 8
      else if c = ''SPRING_WHEAT'' then 9 else - 1)"
  by (simp add: crop_label_def crop_mapping_def)

lemma digit_val_digit_char: "d < 10 \<Longrightarrow> digit_val (digit_char d) = d"
  by (simp add: digit_val_def digit_char_def)

lemma is_digit_digit_char: "d < 10 \<Longrightarrow> is_digit (digit_char d)"
  by (simp add: is_digit_def digit_char_def)

lemma decimal_digits: "list_all is_digit (decimal n) \<and> decimal n \<noteq> []"
proof (induction n rule: decimal.induct)
  case (1 n)
  show ?case
  proof (cases "n < 10")
    case True
    then show ?thesis by (simp add: decimal.simps [of n] is_digit_digit_char)
  next
    case False
    with 1 show ?thesis by (simp add: decimal.simps [of n] is_digit_digit_char)
  qed
qed

lemma dec_value_snoc: "dec_value (ds @ [c]) = 10 * dec_value ds + digit_val c"
  by (simp add: dec_value_def)

lemma dec_value_decimal: "dec_value (decimal n) = n"
proof (induction n rule: decimal.induct)
  case (1 n)
  show ?case
  proof (cases "n < 10")
    case True
    then show ?thesis
      by (simp add: decimal.simps [of n] dec_value_def digit_val_digit_char)
  next
    case False
    then have "dec_value (decimal (n div 10)) = n div 10" by (rule 1)
    then show ?thesis
      using False by (simp add: decimal.simps [of n] dec_value_snoc digit_val_digit_char)
  qed
qed

lemma dec_value_zeros: "dec_value (replicate z (CHR ''0'') @ ds) = dec_value ds"
proof -
  have "foldl (\<lambda>a c. 10 * a + digit_val c) 0 (replicate z (CHR ''0'')) = 0"
    by (induction z) (simp_all add: digit_val_def)
  then show ?thesis by (simp add: dec_value_def)
qed

lemma zeros_decimal_digits: "list_all is_digit (replicate z (CHR ''0'') @ decimal n)"
proof -
  have "is_digit (CHR ''0'')" by (simp add: is_digit_def)
  then have "list_all is_digit (replicate z (CHR ''0''))" by (induction z) simp_all
  with decimal_digits [of n] show ?thesis by simp
qed

lemma py_int_decimal:
  assumes "length (replicate z (CHR ''0'') @ decimal n) \<le> 4300"
  shows "py_int (replicate z (CHR ''0'') @ decimal n) = Some (int n)"
proof -
  let ?p = "replicate z (CHR ''0'') @ decimal n"
  have "?p \<noteq> []" using decimal_digits [of n] by simp
  moreover have "list_all is_digit ?p" by (rule zeros_decimal_digits)
  ultimately have "py_int ?p = Some (int (dec_value ?p))"
    using assms by (rule py_int_digits)
  then show ?thesis by (simp add: dec_value_zeros dec_value_decimal)
qed

text \<open>
  Claim C6. Take a file name \<open>POINT_<p>_<d>_<r>_<c>_<s>.<ext>\<close> in which \<open>p\<close> is a
  natural number \<open>n\<close> written in decimal, with or without leading zeros (at most 4300
  digits in all, the longest literal the interpreter converts), \<open>d\<close>, \<open>r\<close> and \<open>s\<close>
  hold no underscore, the extension holds no dot and the name holds no path separator;
  the crop type \<open>c\<close> is any string, with or without underscores. Then
  \<open>parse_filename\<close> returns the point \<open>n\<close>, the date \<open>d\<close>, the region \<open>r\<close>, the crop
  type \<open>c\<close> rejoined from its segments, the sensor \<open>s\<close>, and as label the number of
  \<open>c\<close> in the crop enumeration (BARLEY 0, CANOLA 1, CORN 2, MIXEDWOOD 3, OAT 4,
  ORCHARD 5, PASTURE 6, POTATO 7, SOYBEAN 8, SPRING_WHEAT 9), or \<open>-1\<close>, without an
  error, for any other crop type.
\<close>

theorem parse_filename_components:
  assumes p: "p = replicate z (CHR ''0'') @ decimal n" "length p \<le> 4300"
    and d: "CHR ''_'' \<notin> set d" and r: "CHR ''_'' \<notin> set r" and s: "CHR ''_'' \<notin> set s"
    and e: "CHR ''.'' \<notin> set ext"
    and f: "filename =
              ''POINT_'' @ p @ ''_'' @ d @ ''_'' @ r @ ''_'' @ c @ ''_'' @ s @ ''.'' @ ext"
    and n: "CHR ''/'' \<notin> set filename"
  shows "parse_filename filename =
           Inr (Some \<lparr>POINT = int n, DATE = d, REGION = r, LABEL = crop_label c,
                       CROP_TYPE = c, SENSOR_TYPE = s\<rparr>) \<and>
         crop_label c =
           (if c = ''BARLEY'' then 0 else if c = ''CANOLA'' then 1 else if c = ''CORN'' then 2
            else if c = ''MIXEDWOOD'' then 3 else if c = ''OAT'' then 4
            else if c = ''ORCHARD'' then 5 else if c = ''PASTURE'' then 6
            else if c = ''POTATO'' then 7 else if c = ''SOYBEAN'' then 8
            else if c = ''SPRING_WHEAT'' then 9 else - 1)"
proof -
  define stem where "stem = ''POINT_'' @ p @ ''_'' @ d @ ''_'' @ r @ ''_'' @ c @ ''_'' @ s"
  have fs: "filename = stem @ CHR ''.'' # ext" by (simp add: f stem_def)
  have "splitext filename = (stem, CHR ''.'' # ext)"
    unfolding fs using n e by (intro splitext_last_dot) (auto simp: fs stem_def)
  then have name: "fst (splitext filename) = stem" by simp
  have "list_all is_digit p"
    unfolding p(1) by (rule zeros_decimal_digits)
  then have pu: "CHR ''_'' \<notin> set p" by (rule digits_no_underscore)
  have pi: "py_int p = Some (int n)"
    using p(2) unfolding p(1) by (rule py_int_decimal)
  have tail: "str_split (CHR ''_'') (c @ CHR ''_'' # s) = str_split (CHR ''_'') c @ [s]"
    using s by (rule str_split_last)
  have "str_split (CHR ''_'') stem =
          ''POINT'' # str_split (CHR ''_'')
             (p @ CHR ''_'' # d @ CHR ''_'' # r @ CHR ''_'' # c @ CHR ''_'' # s)"
    unfolding stem_def using str_split_first[of "CHR ''_''" "''POINT''"] by simp
  also have "\<dots> = ''POINT'' # p # d # r # str_split (CHR ''_'') (c @ CHR ''_'' # s)"
    using pu d r by (simp add: str_split_first)
  finally have parts:
    "str_split (CHR ''_'') stem = ''POINT'' # p # d # r # str_split (CHR ''_'') c @ [s]"
    by (simp add: tail)
  obtain c1 cs where cc: "str_split (CHR ''_'') c = c1 # cs"
    using str_split_nonempty[of "CHR ''_''" c] by (cases "str_split (CHR ''_'') c") auto
  have j: "str_join ''_'' (str_split (CHR ''_'') c) = c" by (rule str_join_split)
  have "parse_filename filename =
           Inr (Some \<lparr>POINT = int n, DATE = d, REGION = r, LABEL = crop_label c,
                       CROP_TYPE = c, SENSOR_TYPE = s\<rparr>)"
    unfolding parse_filename_def name Let_def parts
    using j by (simp add: cc pi)
  then show ?thesis using crop_label_table by blast
qed

lemma decimal_examples: "decimal 7 = ''7''" "decimal 123 = ''123''"
  by code_simp+

text \<open>A crop type with an embedded underscore and a point written with leading zeros;
  an unknown crop type and a point of three digits.\<close>

theorem parse_filename_components_witness:
  "parse_filename ''POINT_007_2017-06-01_CA_SPRING_WHEAT_NDVI45.png'' =
     Inr (Some \<lparr>POINT = 7, DATE = ''2017-06-01'', REGION = ''CA'', LABEL = 9,
                 CROP_TYPE = ''SPRING_WHEAT'', SENSOR_TYPE = ''NDVI45''\<rparr>) \<and>
   parse_filename ''POINT_123_D1_R_RICE_RGB.png'' =
     Inr (Some \<lparr>POINT = 123, DATE = ''D1'', REGION = ''R'', LABEL = - 1,
                 CROP_TYPE = ''RICE'', SENSOR_TYPE = ''RGB''\<rparr>)"
proof -
  have a: "''007'' = replicate 2 (CHR ''0'') @ decimal 7"
    by (simp add: decimal_examples numeral_2_eq_2)
  have b: "''123'' = replicate 0 (CHR ''0'') @ decimal 123"
    by (simp add: decimal_examples)
  from parse_filename_components [OF a, of "''2017-06-01''" "''CA''" "''NDVI45''" "''png''"
      "''POINT_007_2017-06-01_CA_SPRING_WHEAT_NDVI45.png''" "''SPRING_WHEAT''"]
  have one: "parse_filename ''POINT_007_2017-06-01_CA_SPRING_WHEAT_NDVI45.png'' =
     Inr (Some \<lparr>POINT = 7, DATE = ''2017-06-01'', REGION = ''CA'', LABEL = 9,
                 CROP_TYPE = ''SPRING_WHEAT'', SENSOR_TYPE = ''NDVI45''\<rparr>)"
    by simp
  from parse_filename_components [OF b, of "''D1''" "''R''" "''RGB''" "''png''"
      "''POINT_123_D1_R_RICE_RGB.png''" "''RICE''"]
  have two: "parse_filename ''POINT_123_D1_R_RICE_RGB.png'' =
     Inr (Some \<lparr>POINT = 123, DATE = ''D1'', REGION = ''R'', LABEL = - 1,
                 CROP_TYPE = ''RICE'', SENSOR_TYPE = ''RGB''\<rparr>)"
    by simp
  from one two show ?thesis by blast
qed

section \<open>What the scan loop does with a non-numeric point and with a readable file\<close>

lemma parse_example_ok:
  "parse_filename ''POINT_1_D1_R_CORN_RGB.png'' =
     Inr (Some \<lparr>POINT = 1, DATE = ''D1'', REGION = ''R'', LABEL = 2,
                 CROP_TYPE = ''CORN'', SENSOR_TYPE = ''RGB''\<rparr>)"
  by code_simp

lemma parse_example_bad: "parse_filename ''POINT_abc_D1_R_CORN_RGB.png'' = Inl ValueError"
  by code_simp

lemma examples_pass_name_checks:
  "endswith (str_lower ''POINT_1_D1_R_CORN_RGB.png'') ''.png''"
  "startswith ''POINT_1_D1_R_CORN_RGB.png'' ''POINT_''"
  "endswith (str_lower ''POINT_abc_D1_R_CORN_RGB.png'') ''.png''"
  "startswith ''POINT_abc_D1_R_CORN_RGB.png'' ''POINT_''"
  by (simp_all add: endswith_def startswith_def str_lower_def char_lower_def)

lemma rgb_root_path: "rgb_root = ''../dataset/dataset_ca_17/RGB''"
  by (simp add: rgb_root_def path_join_def base_dir_def)

text \<open>
  Claim C7. The claim says that a name with a non-numeric point is skipped and the
  scan goes on. The code does not: \<open>int(parts[1])\<close> raises inside \<open>parse_filename\<close>, the
  loop has no handler around that call, and the exception ends the scan. With
  \<open>POINT_abc_D1_R_CORN_RGB.png\<close> listed before a well-formed file, the scan ends in
  \<open>ValueError\<close> and yields no groups; without it, the same tree yields the group of the
  well-formed file.
\<close>

theorem scan_aborts_on_non_numeric_point:
  "collect_groups
     (tree_fs [''POINT_abc_D1_R_CORN_RGB.png'', ''POINT_1_D1_R_CORN_RGB.png'']
        (\<lambda>p. Some ''png'')) = Inl ValueError \<and>
   collect_groups (tree_fs [''POINT_1_D1_R_CORN_RGB.png''] (\<lambda>p. Some ''png'')) =
     Inr \<lparr>groups_of =
            [((1, ''D1'', ''R'', ''CORN''),
              \<lparr>POINT = 1, DATE = ''D1'', REGION = ''R'', LABEL = 2, CROP_TYPE = ''CORN'',
               SLOTS = (\<lambda>sensor. None)(''RGB'' := Some ''png'')\<rparr>)],
          printed = []\<rparr>"
  by (simp add: collect_groups_def sensors_def tree_fs_def rgb_root_path path_join_def
      base_dir_def process_file_def examples_pass_name_checks parse_example_ok
      parse_example_bad new_group_def)

text \<open>
  Claim C9. The claim says that an accepted file is read from its place in the scanned
  tree. The code opens the bare file name, \<open>open(file, 'rb')\<close>, which the operating
  system resolves against the working directory, not against \<open>root\<close>. In a tree where
  \<open>base_dir/RGB/POINT_1_D1_R_CORN_RGB.png\<close> is readable and no file of that name lies in
  the working directory, the read fails: the diagnostic is printed, the file is skipped
  and no group is collected. (That a failed read skips only the file and lets the scan
  go on is as the claim says.)
\<close>

theorem scan_reads_bare_file_name:
  "read_rb
     (tree_fs [''POINT_1_D1_R_CORN_RGB.png'']
        (\<lambda>p. if p = path_join rgb_root ''POINT_1_D1_R_CORN_RGB.png'' then Some ''png'' else None))
     (path_join rgb_root ''POINT_1_D1_R_CORN_RGB.png'') = Some ''png'' \<and>
   collect_groups
     (tree_fs [''POINT_1_D1_R_CORN_RGB.png'']
        (\<lambda>p. if p = path_join rgb_root ''POINT_1_D1_R_CORN_RGB.png'' then Some ''png'' else None)) =
     Inr \<lparr>groups_of = [], printed = [Error_reading ''POINT_1_D1_R_CORN_RGB.png'']\<rparr>"
  by (simp add: collect_groups_def sensors_def tree_fs_def rgb_root_path path_join_def
      base_dir_def process_file_def examples_pass_name_checks parse_example_ok new_group_def)

section \<open>The sequence builder\<close>

subsection \<open>The dictionary of points\<close>

lemma first_occurrences_snoc:
  "first_occurrences (xs @ [x]) =
     (if x \<in> set xs then first_occurrences xs else first_occurrences xs @ [x])"
  by (simp add: first_occurrences_def)

lemma set_first_occurrences [simp]: "set (first_occurrences xs) = set xs"
  by (simp add: first_occurrences_def)

lemma distinct_first_occurrences [simp]: "distinct (first_occurrences xs)"
  by (simp add: first_occurrences_def)

lemma first_occurrences_filter:
  "first_occurrences (filter P xs) = filter P (first_occurrences xs)"
  by (simp add: first_occurrences_def rev_filter remdups_filter)

lemma map_of_tabulate:
  "map_of (map (\<lambda>q. (q, F q)) ks) k = (if k \<in> set ks then Some (F k) else None)"
  by (induction ks) auto

lemma update_absent:
  "k \<notin> fst ` set al \<Longrightarrow> AList.update k v al = al @ [(k, v)]"
  by (induction al) auto

lemma update_tabulate:
  "distinct ks \<Longrightarrow> k \<in> set ks \<Longrightarrow>
     AList.update k v (map (\<lambda>q. (q, F q)) ks) = map (\<lambda>q. (q, if q = k then v else F q)) ks"
proof (induction ks)
  case Nil
  then show ?case by simp
next
  case (Cons a ks)
  show ?case
  proof (cases "a = k")
    case True
    then have "k \<notin> set ks" using Cons.prems by simp
    then have "map (\<lambda>q. (q, F q)) ks = map (\<lambda>q. (q, if q = k then v else F q)) ks"
      by (intro map_cong) auto
    with True show ?thesis by simp
  next
    case False
    with Cons show ?thesis by simp
  qed
qed

lemma group_by_point_snoc:
  "group_by_point (rs @ [r]) = append_record (group_by_point rs) r"
  by (simp add: group_by_point_def)

lemma group_by_point_eq:
  "group_by_point rs =
     map (\<lambda>q. (q, filter (\<lambda>r. POINT r = q) rs)) (first_occurrences (map POINT rs))"
proof (induction rs rule: rev_induct)
  case Nil
  then show ?case by (simp add: group_by_point_def first_occurrences_def)
next
  case (snoc r rs)
  let ?ks = "first_occurrences (map POINT rs)"
  let ?F = "\<lambda>q. filter (\<lambda>x. POINT x = q) rs"
  let ?k = "POINT r"
  have g: "group_by_point rs = map (\<lambda>q. (q, ?F q)) ?ks" by (rule snoc.IH)
  show ?case
  proof (cases "?k \<in> set (map POINT rs)")
    case True
    then have m: "map_of (group_by_point rs) ?k = Some (?F ?k)"
      by (simp add: g map_of_tabulate)
    have "append_record (group_by_point rs) r =
            AList.update ?k (?F ?k @ [r]) (map (\<lambda>q. (q, ?F q)) ?ks)"
      by (simp add: append_record_def m) (simp add: g)
    also have "\<dots> = map (\<lambda>q. (q, if q = ?k then ?F ?k @ [r] else ?F q)) ?ks"
      using True by (intro update_tabulate) simp_all
    also have "\<dots> = map (\<lambda>q. (q, filter (\<lambda>x. POINT x = q) (rs @ [r]))) ?ks"
      by (intro map_cong) auto
    finally show ?thesis
      using True by (simp add: group_by_point_snoc first_occurrences_snoc)
  next
    case False
    then have m: "map_of (group_by_point rs) ?k = None"
      by (simp add: g map_of_tabulate)
    have nk: "?k \<notin> fst ` set (map (\<lambda>q. (q, ?F q)) ?ks)"
      using False by (simp add: image_image)
    have "POINT x \<noteq> ?k" if "x \<in> set rs" for x
      using that False by (metis image_eqI list.set_map)
    then have e: "?F ?k = []" by (simp add: filter_empty_conv)
    have "append_record (group_by_point rs) r =
            AList.update ?k [r] (map (\<lambda>q. (q, ?F q)) ?ks)"
      by (simp add: append_record_def m) (simp add: g)
    also have "\<dots> = map (\<lambda>q. (q, ?F q)) ?ks @ [(?k, [r])]"
      using nk by (rule update_absent)
    also have "map (\<lambda>q. (q, ?F q)) ?ks = map (\<lambda>q. (q, filter (\<lambda>x. POINT x = q) (rs @ [r]))) ?ks"
      using False by (intro map_cong) auto
    finally show ?thesis
      using False e by (simp add: group_by_point_snoc first_occurrences_snoc)
  qed
qed

lemma add_point_acc:
  "add_point L acc recs =
     (fst acc @ fst (point_output L recs), snd acc @ snd (point_output L recs))"
  by (simp add: add_point_def point_output_def Let_def)

lemma foldl_add_point:
  "foldl (add_point L) acc gs =
     (fst acc @ concat (map (\<lambda>g. fst (point_output L g)) gs),
      snd acc @ concat (map (\<lambda>g. snd (point_output L g)) gs))"
proof (induction gs arbitrary: acc)
  case Nil
  then show ?case by simp
next
  case (Cons g gs)
  show ?case
    by (simp add: Cons.IH [of "add_point L acc g"]) (simp add: add_point_acc [of L acc g])
qed

lemma create_sequences_eq:
  "create_sequences L rs =
     (concat (map (\<lambda>q. fst (point_output L (filter (\<lambda>r. POINT r = q) rs)))
                (first_occurrences (map POINT rs))),
      concat (map (\<lambda>q. snd (point_output L (filter (\<lambda>r. POINT r = q) rs)))
                (first_occurrences (map POINT rs))))"
  by (simp add: create_sequences_def foldl_add_point group_by_point_eq comp_def)

subsection \<open>The windows of one point\<close>

lemma py_slice_window:
  assumes "0 \<le> L" "i + nat L \<le> length xs"
  shows "py_slice xs (int i) (int i + L) = take (nat L) (drop i xs)"
proof -
  have lo: "slice_index (length xs) (int i) = i"
    using assms by (simp add: slice_index_def)
  have hi: "slice_index (length xs) (int i + L) = i + nat L"
    using assms by (simp add: slice_index_def nat_add_distrib)
  show ?thesis by (simp add: py_slice_def lo hi)
qed

lemma set_py_slice: "set (py_slice xs i j) \<subseteq> set xs"
  unfolding py_slice_def Let_def
  by (meson set_take_subset set_drop_subset subset_trans)

lemma point_output_subset:
  assumes "s \<in> set (fst (point_output L recs))"
  shows "set s \<subseteq> set recs"
proof -
  from assms obtain i where "s = py_slice (sort_key DATE recs) (int i) (int i + L)"
    by (auto simp: point_output_def add_point_def Let_def split: if_splits)
  then show ?thesis using set_py_slice [of "sort_key DATE recs"] by simp
qed

lemma point_output_windows:
  assumes "0 \<le> L"
  shows "fst (point_output L recs) =
           (if card (LABEL ` set recs) \<noteq> 1 then []
            else map (\<lambda>i. take (nat L) (drop i (sort_key DATE recs)))
                   [0..<length recs + 1 - nat L])"
proof (cases "card (LABEL ` set recs) \<noteq> 1")
  case True
  then show ?thesis by (simp add: point_output_def add_point_def)
next
  case False
  have n: "nat (int (length recs) - L + 1) = length recs + 1 - nat L"
    using assms by linarith
  have "map (\<lambda>i. py_slice (sort_key DATE recs) (int i) (int i + L)) [0..<length recs + 1 - nat L]
        = map (\<lambda>i. take (nat L) (drop i (sort_key DATE recs))) [0..<length recs + 1 - nat L]"
  proof (rule map_cong [OF refl])
    fix i assume "i \<in> set [0..<length recs + 1 - nat L]"
    then have "i + nat L \<le> length (sort_key DATE recs)" by simp
    with assms show "py_slice (sort_key DATE recs) (int i) (int i + L) =
                     take (nat L) (drop i (sort_key DATE recs))"
      by (rule py_slice_window)
  qed
  with False show ?thesis
    by (simp add: point_output_def add_point_def Let_def n)
qed

lemma point_output_mixed:
  assumes "r1 \<in> set recs" "r2 \<in> set recs" "LABEL r1 \<noteq> LABEL r2"
  shows "point_output L recs = ([], [])"
proof -
  have "card (LABEL ` set recs) \<noteq> 1"
  proof
    assume "card (LABEL ` set recs) = 1"
    then obtain x where "LABEL ` set recs = {x}" by (rule card_1_singletonE)
    with assms(1,2) have "LABEL r1 = x" "LABEL r2 = x" by blast+
    with assms(3) show False by simp
  qed
  then show ?thesis by (simp add: point_output_def add_point_def)
qed

lemma point_output_uniform:
  assumes "recs \<noteq> []" "\<forall>r\<in>set recs. LABEL r = l"
  shows "card (LABEL ` set recs) = 1"
proof -
  have "LABEL ` set recs = {l}" using assms by (cases recs) auto
  then show ?thesis by simp
qed

lemma point_output_nonempty:
  assumes "0 < L" "s \<in> set (fst (point_output L recs))"
  shows "s \<noteq> []"
proof -
  from assms(2) obtain i where i: "i < length recs + 1 - nat L"
      and s: "s = take (nat L) (drop i (sort_key DATE recs))"
    using assms(1) by (auto simp: point_output_windows split: if_splits)
  from i assms(1) have "i < length recs" by linarith
  with s assms(1) show ?thesis by simp
qed

lemma point_output_head:
  assumes "0 < L" "s \<in> set (fst (point_output L recs))" "\<forall>r\<in>set recs. POINT r = q"
  shows "POINT (s ! 0) = q"
proof -
  have "s \<noteq> []" using assms(1,2) by (rule point_output_nonempty)
  then have "s ! 0 \<in> set s" by simp
  with point_output_subset [OF assms(2)] assms(3) show ?thesis by blast
qed

lemma concat_only_key:
  "distinct ks \<Longrightarrow>
     concat (map (\<lambda>q. if q = p then X else []) ks) = (if p \<in> set ks then X else [])"
  by (induction ks) auto

lemma filter_concat_map:
  "filter P (concat (map f ks)) = concat (map (\<lambda>q. filter P (f q)) ks)"
  by (induction ks) auto

lemma concat_map_filter_skip:
  "g p = [] \<Longrightarrow> concat (map g (filter (\<lambda>q. q \<noteq> p) ks)) = concat (map g ks)"
  by (induction ks) auto

lemma obs_sel [simp]: "POINT (obs p d l) = p" "DATE (obs p d l) = d" "LABEL (obs p d l) = l"
  by (simp_all add: obs_def)

lemma ex_sorted:
  "sort_key DATE (filter (\<lambda>r. POINT r = 1) example_records) =
     [obs 1 ''D1'' 2, obs 1 ''D2'' 2, obs 1 ''D3'' 2, obs 1 ''D4'' 2]"
  by (simp add: example_records_def less_eq_char_def less_char_def)

lemma upt3: "[0..<3] = [0, 1, 2]"
  by (simp add: upt_rec)

subsection \<open>Points with one label\<close>

text \<open>
  Claim C4. Let \<open>L\<close> be a positive window width and \<open>p\<close> a point all of whose records
  carry one label. The sequences of \<open>p\<close> in the output (those whose first record is at
  \<open>p\<close>, which is how \<open>split_dataset\<close> reads the point of a sequence) are exactly the
  stride-1 windows of width \<open>L\<close> over the records of \<open>p\<close> sorted by date, in order:
  window \<open>i\<close> is \<open>take L (drop i sorted)\<close> for \<open>i = 0, \<dots>, m - L\<close>, where \<open>m\<close> is the
  number of records of \<open>p\<close>. There are \<open>max 0 (m - L + 1)\<close> of them, each has length
  \<open>L\<close> and holds records of \<open>p\<close> only, and the sorted list is a rearrangement of the
  records of \<open>p\<close> in ascending date order.
\<close>

theorem create_sequences_windows:
  assumes "0 < L" and "\<forall>r\<in>set records. POINT r = p \<longrightarrow> LABEL r = l"
  shows "filter (\<lambda>s. POINT (s ! 0) = p) (fst (create_sequences L records)) =
           map (\<lambda>i. take (nat L) (drop i (sort_key DATE (filter (\<lambda>r. POINT r = p) records))))
             [0..<length (filter (\<lambda>r. POINT r = p) records) + 1 - nat L] \<and>
         int (length (filter (\<lambda>s. POINT (s ! 0) = p) (fst (create_sequences L records)))) =
           max 0 (int (length (filter (\<lambda>r. POINT r = p) records)) - L + 1) \<and>
         (\<forall>s\<in>set (filter (\<lambda>s. POINT (s ! 0) = p) (fst (create_sequences L records))).
            length s = nat L \<and> (\<forall>r\<in>set s. POINT r = p)) \<and>
         sorted (map DATE (sort_key DATE (filter (\<lambda>r. POINT r = p) records))) \<and>
         mset (sort_key DATE (filter (\<lambda>r. POINT r = p) records)) =
           mset (filter (\<lambda>r. POINT r = p) records)"
proof -
  let ?F = "\<lambda>q. filter (\<lambda>r. POINT r = q) records"
  let ?ks = "first_occurrences (map POINT records)"
  let ?P = "\<lambda>s. POINT (s ! 0) = p"
  let ?srt = "sort_key DATE (?F p)"
  let ?m = "length (?F p)"
  let ?W = "map (\<lambda>i. take (nat L) (drop i ?srt)) [0..<?m + 1 - nat L]"
  let ?out = "filter ?P (fst (create_sequences L records))"
  have L0: "0 \<le> L" using assms(1) by simp
  have hd: "POINT (s ! 0) = q" if "s \<in> set (fst (point_output L (?F q)))" for s q
    using assms(1) that by (rule point_output_head) simp
  have per: "filter ?P (fst (point_output L (?F q))) =
               (if q = p then fst (point_output L (?F p)) else [])" for q
  proof (cases "q = p")
    case True
    have "\<forall>s\<in>set (fst (point_output L (?F p))). ?P s"
      using hd by blast
    then show ?thesis using True by (simp add: filter_id_conv)
  next
    case False
    have "\<forall>s\<in>set (fst (point_output L (?F q))). \<not> ?P s"
      using hd False by blast
    then show ?thesis using False by (simp add: filter_empty_conv)
  qed
  have "?out = concat (map (\<lambda>q. filter ?P (fst (point_output L (?F q)))) ?ks)"
    by (simp add: create_sequences_eq filter_concat_map)
  also have "\<dots> = concat (map (\<lambda>q. if q = p then fst (point_output L (?F p)) else []) ?ks)"
    by (simp add: per)
  also have "\<dots> = (if p \<in> set ?ks then fst (point_output L (?F p)) else [])"
    by (rule concat_only_key) simp
  finally have out: "?out = (if p \<in> set ?ks then fst (point_output L (?F p)) else [])" .
  have eq: "?out = ?W"
  proof (cases "p \<in> set ?ks")
    case True
    then have ne: "?F p \<noteq> []" by (auto simp: filter_empty_conv)
    have "\<forall>r\<in>set (?F p). LABEL r = l" using assms(2) by simp
    with ne have "card (LABEL ` set (?F p)) = 1" by (rule point_output_uniform)
    then show ?thesis using True out by (simp add: point_output_windows [OF L0])
  next
    case False
    have "POINT x \<noteq> p" if "x \<in> set records" for x
      using that False by (metis image_eqI list.set_map set_first_occurrences)
    then have "?F p = []" by (simp add: filter_empty_conv)
    moreover have "1 - nat L = 0" using assms(1) by simp
    ultimately show ?thesis using False out by simp
  qed
  have "length ?out = ?m + 1 - nat L" by (simp add: eq)
  then have len: "int (length ?out) = max 0 (int ?m - L + 1)"
    using assms(1) by linarith
  have each: "length s = nat L \<and> (\<forall>r\<in>set s. POINT r = p)" if "s \<in> set ?out" for s
  proof -
    from that obtain i where i: "i < ?m + 1 - nat L" and s: "s = take (nat L) (drop i ?srt)"
      unfolding eq by auto
    have "set s \<subseteq> set ?srt" unfolding s
      by (meson set_take_subset set_drop_subset subset_trans)
    then have "\<forall>r\<in>set s. POINT r = p" by auto
    moreover have "length s = nat L" using i by (simp add: s)
    ultimately show ?thesis by simp
  qed
  have all: "\<forall>s\<in>set ?out. length s = nat L \<and> (\<forall>r\<in>set s. POINT r = p)"
    using each by blast
  have srt: "sorted (map DATE ?srt)" by (rule sorted_sort_key)
  have ms: "mset ?srt = mset (?F p)" by (rule mset_sort)
  show ?thesis
    by (rule conjI [OF eq conjI [OF len conjI [OF all conjI [OF srt ms]]]])
qed

text \<open>Point 1 of the example: four dates, width 2, three windows in date order.\<close>

theorem create_sequences_windows_witness:
  "0 < (2::int) \<and>
   filter (\<lambda>s. POINT (s ! 0) = 1) (fst (create_sequences 2 example_records)) =
     [[obs 1 ''D1'' 2, obs 1 ''D2'' 2], [obs 1 ''D2'' 2, obs 1 ''D3'' 2],
      [obs 1 ''D3'' 2, obs 1 ''D4'' 2]] \<and>
   int (length (filter (\<lambda>s. POINT (s ! 0) = 1) (fst (create_sequences 2 example_records)))) = 3"
proof -
  have h1: "0 < (2::int)" by simp
  have h2: "\<forall>r\<in>set example_records. POINT r = 1 \<longrightarrow> LABEL r = 2"
    by (simp add: example_records_def)
  have m: "length (filter (\<lambda>r. POINT r = 1) example_records) = 4"
    by (simp add: example_records_def)
  from create_sequences_windows [OF h1 h2]
  have "filter (\<lambda>s. POINT (s ! 0) = 1) (fst (create_sequences 2 example_records)) =
          map (\<lambda>i. take (nat 2) (drop i (sort_key DATE (filter (\<lambda>r. POINT r = 1) example_records))))
            [0..<length (filter (\<lambda>r. POINT r = 1) example_records) + 1 - nat 2]"
    by (rule conjunct1)
  then have "filter (\<lambda>s. POINT (s ! 0) = 1) (fst (create_sequences 2 example_records)) =
     [[obs 1 ''D1'' 2, obs 1 ''D2'' 2], [obs 1 ''D2'' 2, obs 1 ''D3'' 2],
      [obs 1 ''D3'' 2, obs 1 ''D4'' 2]]"
    by (simp add: ex_sorted m upt3)
  then show ?thesis by simp
qed

subsection \<open>Points with mixed labels\<close>

text \<open>
  Claim C5. If two records of a point \<open>p\<close> differ in their label, the whole group of
  \<open>p\<close> is discarded, whatever the window width and however many records \<open>p\<close> has:
  the sequences and labels produced are those produced from the input without the
  records of \<open>p\<close>, and no record of \<open>p\<close> occurs in any output sequence.
\<close>

theorem mixed_label_point_discarded:
  assumes "r1 \<in> set records" "r2 \<in> set records" "POINT r1 = p" "POINT r2 = p"
    and "LABEL r1 \<noteq> LABEL r2"
  shows "create_sequences L records = create_sequences L (filter (\<lambda>r. POINT r \<noteq> p) records) \<and>
         (\<forall>s\<in>set (fst (create_sequences L records)). \<forall>r\<in>set s. POINT r \<noteq> p)"
proof -
  let ?F = "\<lambda>q. filter (\<lambda>r. POINT r = q) records"
  let ?rest = "filter (\<lambda>r. POINT r \<noteq> p) records"
  let ?ks = "first_occurrences (map POINT records)"
  have none: "point_output L (?F p) = ([], [])"
    using assms by (intro point_output_mixed [of r1 _ r2]) simp_all
  have ks: "first_occurrences (map POINT ?rest) = filter (\<lambda>q. q \<noteq> p) ?ks"
    by (simp add: first_occurrences_filter [symmetric] filter_map comp_def)
  have same: "filter (\<lambda>r. POINT r = q) ?rest = ?F q" if "q \<noteq> p" for q
    using that by (auto intro: filter_cong)
  have part: "concat (map (\<lambda>q. h (point_output L (filter (\<lambda>r. POINT r = q) ?rest)))
                 (first_occurrences (map POINT ?rest))) =
              concat (map (\<lambda>q. h (point_output L (?F q))) ?ks)"
    if "h ([], []) = []" for h :: "'a decoded list list \<times> int list \<Rightarrow> 'b list"
  proof -
    have a: "map (\<lambda>q. h (point_output L (filter (\<lambda>r. POINT r = q) ?rest))) (filter (\<lambda>q. q \<noteq> p) ?ks)
          = map (\<lambda>q. h (point_output L (?F q))) (filter (\<lambda>q. q \<noteq> p) ?ks)"
    proof (rule map_cong [OF refl])
      fix q assume "q \<in> set (filter (\<lambda>q. q \<noteq> p) ?ks)"
      then have "q \<noteq> p" by simp
      from same [OF this]
      show "h (point_output L (filter (\<lambda>r. POINT r = q) ?rest)) = h (point_output L (?F q))"
        by (rule arg_cong [where f = "\<lambda>x. h (point_output L x)"])
    qed
    have b: "concat (map (\<lambda>q. h (point_output L (?F q))) (filter (\<lambda>q. q \<noteq> p) ?ks)) =
                   concat (map (\<lambda>q. h (point_output L (?F q))) ?ks)"
      by (rule concat_map_filter_skip) (simp add: none that)
    show ?thesis by (simp only: ks a b)
  qed
  have one: "create_sequences L records = create_sequences L ?rest"
    unfolding create_sequences_eq [of L records] create_sequences_eq [of L ?rest]
    using part [of fst] part [of snd] by simp
  have two: "POINT r \<noteq> p" if "s \<in> set (fst (create_sequences L records))" "r \<in> set s" for s r
  proof -
    from that(1) obtain q where q: "s \<in> set (fst (point_output L (?F q)))"
      by (auto simp: create_sequences_eq)
    with none have "q \<noteq> p" by auto
    moreover from point_output_subset [OF q] that(2) have "POINT r = q" by auto
    ultimately show ?thesis by simp
  qed
  from one two show ?thesis by blast
qed

text \<open>Point 2 of the example: its two records disagree, and only the three windows of
  point 1 are produced.\<close>

theorem mixed_label_point_discarded_witness:
  "obs 2 ''D1'' 2 \<in> set example_records \<and> obs 2 ''D2'' 0 \<in> set example_records \<and>
   LABEL (obs 2 ''D1'' 2) \<noteq> LABEL (obs 2 ''D2'' 0) \<and>
   create_sequences 2 example_records =
     create_sequences 2 (filter (\<lambda>r. POINT r \<noteq> 2) example_records) \<and>
   length (fst (create_sequences 2 (filter (\<lambda>r. POINT r \<noteq> 2) example_records))) = 3"
proof -
  have a: "obs 2 ''D1'' 2 \<in> set example_records" "obs 2 ''D2'' 0 \<in> set example_records"
    by (simp_all add: example_records_def)
  have b: "LABEL (obs 2 ''D1'' 2) \<noteq> LABEL (obs 2 ''D2'' 0)" by simp
  have c: "POINT (obs 2 ''D1'' 2) = 2" "POINT (obs 2 ''D2'' 0) = 2" by simp_all
  from mixed_label_point_discarded [OF a c b, of 2]
  have d: "create_sequences 2 example_records =
        create_sequences 2 (filter (\<lambda>r. POINT r \<noteq> 2) example_records)"
    by (rule conjunct1)
  have f: "filter (\<lambda>r. POINT r \<noteq> 2) example_records = [obs 1 ''D2'' 2, obs 1 ''D1'' 2, obs 1 ''D4'' 2, obs 1 ''D3'' 2]"
    by (simp add: example_records_def)
  have e: "length (fst (create_sequences 2 (filter (\<lambda>r. POINT r \<noteq> 2) example_records))) = 3"
    unfolding f
    by (simp add: create_sequences_def group_by_point_def append_record_def add_point_def py_slice_def slice_index_def
        less_eq_char_def less_char_def upt3 Let_def)
  from a b d e show ?thesis by blast
qed

section \<open>The point-disjoint split\<close>

subsection \<open>The library calls\<close>

lemma train_test_split_mset:
  assumes "mset (perm (length xs)) = mset [0..<length xs]"
    and "train_test_split k perm xs = Inr (tr, te)"
  shows "mset (tr @ te) = mset xs"
proof -
  let ?n = "length xs"
  let ?p = "perm ?n"
  have len: "length ?p = ?n"
    using assms(1) by (metis length_upt mset_eq_length minus_nat.diff_0)
  from assms(2) have k: "k < ?n"
    and tr: "tr = map (\<lambda>i. xs ! i) (take (?n - k) (drop k ?p))"
    and te: "te = map (\<lambda>i. xs ! i) (take k ?p)"
    by (auto simp: train_test_split_def Let_def split: if_splits)
  have "take (?n - k) (drop k ?p) = drop k ?p" using len by simp
  then have "mset (tr @ te) = image_mset (\<lambda>i. xs ! i) (mset (drop k ?p) + mset (take k ?p))"
    by (simp add: tr te)
  also have "mset (drop k ?p) + mset (take k ?p) = mset ?p"
    by (metis add.commute append_take_drop_id mset_append)
  also have "image_mset (\<lambda>i. xs ! i) (mset ?p) = mset (map (\<lambda>i. xs ! i) [0..<?n])"
    by (simp add: assms(1))
  also have "map (\<lambda>i. xs ! i) [0..<?n] = xs" by (rule map_nth)
  finally show ?thesis .
qed

lemma split_points_partition:
  assumes ok: "library_ok lib"
    and sp: "split_points lib points = Inr (train_points, val_points, test_points)"
  shows "distinct (train_points @ val_points @ test_points) \<and>
         set (train_points @ val_points @ test_points) = set points"
proof -
  let ?u = "set_list lib points"
  have perm: "mset (permutation lib n) = mset [0..<n]" for n
    using ok by (simp add: library_ok_def)
  have u: "distinct ?u" "set ?u = set points"
    using ok by (simp_all add: library_ok_def)
  from sp obtain tr0 where
    s1: "train_test_split (n_test lib (length ?u)) (permutation lib) ?u = Inr (tr0, test_points)"
    and s2: "train_test_split (n_val lib (length tr0)) (permutation lib) tr0 =
               Inr (train_points, val_points)"
    by (auto simp: split_points_def Let_def split: sum.splits prod.splits)
  have m1: "mset (tr0 @ test_points) = mset ?u"
    using perm s1 by (rule train_test_split_mset)
  have m2: "mset (train_points @ val_points) = mset tr0"
    using perm s2 by (rule train_test_split_mset)
  have m: "mset (train_points @ val_points @ test_points) = mset ?u"
    using m1 m2 by (metis append_assoc mset_append)
  have "distinct (train_points @ val_points @ test_points)"
    using m u(1) by (metis mset_eq_imp_distinct_iff)
  moreover have "set (train_points @ val_points @ test_points) = set points"
    using m u(2) by (metis mset_eq_setD)
  ultimately show ?thesis by simp
qed

lemma select_Inr: "select xs idx = Inr ys \<Longrightarrow> ys = map (\<lambda>i. xs ! i) idx \<and> (\<forall>i\<in>set idx. i < length xs)"
  by (auto simp: select_def split: if_splits)

lemma bootstrap_range:
  assumes ch: "\<forall>g a k. a \<noteq> [] \<longrightarrow> length (fst (ch g a k)) = k \<and> set (fst (ch g a k)) \<subseteq> set a"
    and st: "\<forall>(c, k)\<in>set strategy. c \<in> set y"
  shows "set (fst (bootstrap ch g y strategy)) \<subseteq> {0..<length y}"
  using st
proof (induction strategy arbitrary: g)
  case Nil
  then show ?case by simp
next
  case (Cons ck rest)
  obtain c k where ck: "ck = (c, k)" by (cases ck)
  let ?pool = "filter (\<lambda>i. y ! i = c) [0..<length y]"
  have "c \<in> set y" using Cons.prems ck by simp
  then obtain i where "i < length y" "y ! i = c" by (auto simp: in_set_conv_nth)
  then have "i \<in> set ?pool" by simp
  then have "?pool \<noteq> []" by (metis empty_iff empty_set)
  then have "set (fst (ch g ?pool k)) \<subseteq> set ?pool" using ch by blast
  then have a: "set (fst (ch g ?pool k)) \<subseteq> {0..<length y}" by auto
  have b: "set (fst (bootstrap ch (snd (ch g ?pool k)) y rest)) \<subseteq> {0..<length y}"
    using Cons.prems by (intro Cons.IH) simp
  show ?case using a b by (simp add: ck Let_def)
qed

lemma set_np_unique [simp]: "set (np_unique y) = set y"
  by (simp add: np_unique_def)

lemma not_minority_classes: "\<forall>(c, k)\<in>set (not_minority y). c \<in> set y"
  by (auto simp: not_minority_def Let_def)

lemma fit_resample_same_elements:
  assumes ch: "\<forall>g a k. a \<noteq> [] \<longrightarrow> length (fst (ch g a k)) = k \<and> set (fst (ch g a k)) \<subseteq> set a"
    and len: "length y = length X"
    and fr: "fit_resample ch g X y = Inr (X', y', g')"
  shows "set X' = set X"
proof -
  let ?d = "fst (bootstrap ch g y (not_minority y))"
  from fr have X': "X' = map (\<lambda>i. X ! i) ([0..<length y] @ ?d)"
    by (auto simp: fit_resample_def Let_def split: if_splits)
  have d: "set ?d \<subseteq> {0..<length y}"
    using ch not_minority_classes by (rule bootstrap_range)
  have "X' = X @ map (\<lambda>i. X ! i) ?d"
    by (simp add: X' len map_nth)
  moreover have "set (map (\<lambda>i. X ! i) ?d) \<subseteq> set X"
    using d len by auto
  ultimately show ?thesis by auto
qed

lemma select_by_point:
  assumes "points = map f sequences"
  shows "map (\<lambda>i. sequences ! i) (indices_in points part) = filter (\<lambda>s. f s \<in> set part) sequences"
proof -
  have "filter (\<lambda>s. f s \<in> set part) sequences =
          filter (\<lambda>s. f s \<in> set part) (map (\<lambda>i. sequences ! i) [0..<length sequences])"
    by (simp add: map_nth)
  also have "\<dots> = map (\<lambda>i. sequences ! i)
                     (filter (\<lambda>i. f (sequences ! i) \<in> set part) [0..<length sequences])"
    by (simp add: filter_map comp_def)
  also have "filter (\<lambda>i. f (sequences ! i) \<in> set part) [0..<length sequences] =
             indices_in points part"
    unfolding indices_in_def using assms by (auto intro!: filter_cong)
  finally show ?thesis by simp
qed

lemma bootstrap_classes:
  assumes ch: "\<forall>g a k. a \<noteq> [] \<longrightarrow> length (fst (ch g a k)) = k \<and> set (fst (ch g a k)) \<subseteq> set a"
    and st: "\<forall>(c, k)\<in>set strategy. c \<in> set y"
  shows "\<forall>i\<in>set (fst (bootstrap ch g y strategy)). y ! i \<in> fst ` set strategy"
  using st
proof (induction strategy arbitrary: g)
  case Nil
  then show ?case by simp
next
  case (Cons ck rest)
  obtain c k where ck: "ck = (c, k)" by (cases ck)
  let ?pool = "filter (\<lambda>i. y ! i = c) [0..<length y]"
  have "c \<in> set y" using Cons.prems ck by simp
  then obtain i where "i < length y" "y ! i = c" by (auto simp: in_set_conv_nth)
  then have "i \<in> set ?pool" by simp
  then have "?pool \<noteq> []" by (metis empty_iff empty_set)
  then have "set (fst (ch g ?pool k)) \<subseteq> set ?pool" using ch by blast
  then have a: "\<forall>i\<in>set (fst (ch g ?pool k)). y ! i = c" by auto
  have b: "\<forall>i\<in>set (fst (bootstrap ch (snd (ch g ?pool k)) y rest)). y ! i \<in> fst ` set rest"
    using Cons.prems by (intro Cons.IH) simp
  have "set (fst (bootstrap ch g y (ck # rest))) =
          set (fst (ch g ?pool k)) \<union> set (fst (bootstrap ch (snd (ch g ?pool k)) y rest))"
    by (simp add: ck Let_def)
  moreover have "fst ` set (ck # rest) = insert c (fst ` set rest)"
    by (simp add: ck)
  ultimately show ?case using a b by blast
qed

lemma count_list_0: "x \<notin> set xs \<Longrightarrow> count_list xs x = 0"
  by (induction xs) auto

lemma fit_resample_minority_unchanged:
  assumes ch: "\<forall>g a k. a \<noteq> [] \<longrightarrow> length (fst (ch g a k)) = k \<and> set (fst (ch g a k)) \<subseteq> set a"
    and fr: "fit_resample ch g X y = Inr (X', y', g')"
  shows "count_list y' (arg_min_list (count_list y) (np_unique y)) =
         count_list y (arg_min_list (count_list y) (np_unique y))"
proof -
  let ?m = "arg_min_list (count_list y) (np_unique y)"
  let ?d = "fst (bootstrap ch g y (not_minority y))"
  from fr have y': "y' = map (\<lambda>i. y ! i) ([0..<length y] @ ?d)"
    by (auto simp: fit_resample_def Let_def split: if_splits)
  then have y'': "y' = y @ map (\<lambda>i. y ! i) ?d" by (simp add: map_nth)
  have "\<forall>i\<in>set ?d. y ! i \<in> fst ` set (not_minority y)"
    using ch not_minority_classes by (rule bootstrap_classes)
  moreover have "?m \<notin> fst ` set (not_minority y)"
    by (auto simp: not_minority_def Let_def)
  ultimately have "?m \<notin> set (map (\<lambda>i. y ! i) ?d)" by auto
  then have "count_list (map (\<lambda>i. y ! i) ?d) ?m = 0" by (rule count_list_0)
  then show ?thesis by (simp add: y'')
qed

subsection \<open>The partition of the points\<close>

lemma split_dataset_Inr:
  assumes "split_dataset lib g sequences labels = Inr (out, g')"
  obtains points train_points val_points test_points train_labels resampled ry where
    "sequence_points sequences = Inr points"
    "split_points lib points = Inr (train_points, val_points, test_points)"
    "select labels (indices_in points train_points) = Inr train_labels"
    "fit_resample (choice lib) g (indices_in points train_points) train_labels =
       Inr (resampled, ry, g')"
    "select labels resampled = Inr (y_train out)"
    "select labels (indices_in points val_points) = Inr (y_val out)"
    "select labels (indices_in points test_points) = Inr (y_test out)"
    "X_train out = map (\<lambda>i. sequences ! i) resampled"
    "X_val out = map (\<lambda>i. sequences ! i) (indices_in points val_points)"
    "X_test out = map (\<lambda>i. sequences ! i) (indices_in points test_points)"
    "resampled_indices out = resampled"
  using assms unfolding split_dataset_def Let_def
  by (auto split: sum.splits prod.splits)

text \<open>
  Claim C1. Whatever the held-out counts the two fractions give, whenever
  \<open>split_dataset\<close> returns, the three point lists of its two \<open>train_test_split\<close> calls
  have no point in common and no repetition, and together hold exactly the points of
  the sequences (the point of a sequence is that of its first record). The validation
  and test sequences are exactly the sequences at validation and test points, in input
  order; the training sequences, after oversampling, are exactly the sequences at
  training points (repeated or not). So no point has sequences in two partitions. The
  libraries are assumed to do what they document: see \<open>library_ok\<close>.
\<close>

theorem split_dataset_point_disjoint:
  assumes ok: "library_ok lib"
    and sp: "split_points lib (map (\<lambda>seq. POINT (seq ! 0)) sequences) =
               Inr (train_points, val_points, test_points)"
    and sd: "split_dataset lib g sequences labels = Inr (out, g')"
  shows "distinct (train_points @ val_points @ test_points) \<and>
         set (train_points @ val_points @ test_points) =
           (\<lambda>seq. POINT (seq ! 0)) ` set sequences \<and>
         set (X_train out) = {s \<in> set sequences. POINT (s ! 0) \<in> set train_points} \<and>
         X_val out = filter (\<lambda>s. POINT (s ! 0) \<in> set val_points) sequences \<and>
         X_test out = filter (\<lambda>s. POINT (s ! 0) \<in> set test_points) sequences \<and>
         (\<lambda>s. POINT (s ! 0)) ` set (X_train out) \<inter> (\<lambda>s. POINT (s ! 0)) ` set (X_val out) = {} \<and>
         (\<lambda>s. POINT (s ! 0)) ` set (X_train out) \<inter> (\<lambda>s. POINT (s ! 0)) ` set (X_test out) = {} \<and>
         (\<lambda>s. POINT (s ! 0)) ` set (X_val out) \<inter> (\<lambda>s. POINT (s ! 0)) ` set (X_test out) = {}"
proof -
  let ?pt = "\<lambda>s::'b decoded list. POINT (s ! 0)"
  from sd obtain points tr va te train_labels resampled ry where
    pts: "sequence_points sequences = Inr points"
    and sp': "split_points lib points = Inr (tr, va, te)"
    and tl: "select labels (indices_in points tr) = Inr train_labels"
    and fr: "fit_resample (choice lib) g (indices_in points tr) train_labels =
               Inr (resampled, ry, g')"
    and xt: "X_train out = map (\<lambda>i. sequences ! i) resampled"
    and xv: "X_val out = map (\<lambda>i. sequences ! i) (indices_in points va)"
    and xe: "X_test out = map (\<lambda>i. sequences ! i) (indices_in points te)"
    by (rule split_dataset_Inr)
  from pts have points: "points = map ?pt sequences"
    by (auto simp: sequence_points_def split: if_splits)
  from sp sp' points have same: "tr = train_points" "va = val_points" "te = test_points"
    by simp_all
  have part: "distinct (train_points @ val_points @ test_points) \<and>
              set (train_points @ val_points @ test_points) = set (map ?pt sequences)"
    using ok sp by (rule split_points_partition)
  have dis: "distinct (train_points @ val_points @ test_points)" using part by simp
  have cov: "set (train_points @ val_points @ test_points) = ?pt ` set sequences"
    using part by simp
  have ch: "\<forall>g a k. a \<noteq> [] \<longrightarrow>
              length (fst (choice lib g a k)) = k \<and> set (fst (choice lib g a k)) \<subseteq> set a"
    using ok by (simp add: library_ok_def)
  have len: "length train_labels = length (indices_in points tr)"
    using select_Inr [OF tl] by simp
  have rs: "set resampled = set (indices_in points tr)"
    using ch len fr by (rule fit_resample_same_elements)
  have "set (X_train out) = (\<lambda>i. sequences ! i) ` set (indices_in points tr)"
    by (simp add: xt rs)
  also have "\<dots> = set (map (\<lambda>i. sequences ! i) (indices_in points tr))" by simp
  also have "\<dots> = set (filter (\<lambda>s. ?pt s \<in> set tr) sequences)"
    by (simp only: select_by_point [OF points])
  finally have train: "set (X_train out) = {s \<in> set sequences. ?pt s \<in> set train_points}"
    by (simp add: same)
  have val: "X_val out = filter (\<lambda>s. ?pt s \<in> set val_points) sequences"
    unfolding xv same by (rule select_by_point [OF points])
  have test: "X_test out = filter (\<lambda>s. ?pt s \<in> set test_points) sequences"
    unfolding xe same by (rule select_by_point [OF points])
  have d1: "?pt ` set (X_train out) \<inter> ?pt ` set (X_val out) = {}"
    using dis unfolding train val by auto
  have d2: "?pt ` set (X_train out) \<inter> ?pt ` set (X_test out) = {}"
    using dis unfolding train test by auto
  have d3: "?pt ` set (X_val out) \<inter> ?pt ` set (X_test out) = {}"
    using dis unfolding val test by auto
  show ?thesis
    by (rule conjI [OF dis conjI [OF cov conjI [OF train conjI [OF val conjI [OF test
          conjI [OF d1 conjI [OF d2 d3]]]]]]])
qed

subsection \<open>The library on small inputs\<close>

lemma masked_draw_le: "fst (masked_draw rng m g) \<le> rng"
  by (induction g) auto

lemma draw_many_length: "length (fst (draw_many rng m k g)) = k"
  by (induction k arbitrary: g) (auto simp: Let_def)

lemma draw_many_le: "\<forall>i\<in>set (fst (draw_many rng m k g)). i \<le> rng"
  by (induction k arbitrary: g) (auto simp: Let_def masked_draw_le)

lemma draw_choice_length: "length (fst (draw_choice g a k)) = k"
  by (simp add: draw_choice_def Let_def draw_many_length)

lemma draw_choice_subset:
  assumes "a \<noteq> []"
  shows "set (fst (draw_choice g a k)) \<subseteq> set a"
proof -
  have "i < length a" if "i \<le> length a - 1" for i
    using that assms by (cases a) auto
  then show ?thesis
    using draw_many_le [of "length a - 1" "2 ^ bit_length (length a - 1)" k g] assms
    by (auto simp: draw_choice_def Let_def)
qed

lemma mset_if_sort: "sort xs = sort ys \<Longrightarrow> mset xs = mset ys"
  by (metis mset_sort)

lemma upt_lists:
  "[0..<1] = [0]" "[0..<2] = [0, 1]" "[0..<3] = [0, 1, 2]" "[0..<4] = [0, 1, 2, 3]"
  "[0..<5] = [0, 1, 2, 3, 4]" "[0..<6] = [0, 1, 2, 3, 4, 5]"
  "[0..<7] = [0, 1, 2, 3, 4, 5, 6]" "[0..<8] = [0, 1, 2, 3, 4, 5, 6, 7]"
  "[0..<9] = [0, 1, 2, 3, 4, 5, 6, 7, 8]" "[0..<10] = [0, 1, 2, 3, 4, 5, 6, 7, 8, 9]"
  by (simp_all add: upt_rec)

lemma permutation_42_valid: "mset (permutation_42 n) = mset [0..<n]"
proof (cases "map_of permutation_42_table n")
  case None
  then show ?thesis by (simp add: permutation_42_def)
next
  case (Some p)
  then have "(n, p) \<in> set permutation_42_table" by (rule map_of_SomeD)
  then have "sort p = sort [0..<n]"
    by (auto simp: permutation_42_table_def upt_lists)
  then have "mset p = mset [0..<n]" by (rule mset_if_sort)
  with Some show ?thesis by (simp add: permutation_42_def)
qed

lemma example_library_ok: "library_ok example_library"
  using permutation_42_valid draw_choice_length draw_choice_subset
  by (simp add: library_ok_def example_library_def)

lemma example_library_on_example: "library_on_example example_library"
  by (simp add: library_on_example_def example_library_def test_count_def val_count_def
      ceil_times_def round_double_def bit_length.simps Let_def permutation_42_def
      permutation_42_table_def)

subsection \<open>The run on the example\<close>

lemma example_points:
  "sequence_points example_sequences = Inr [1, 2, 3, 3, 4, 4, 4, 5, 6, 7]"
  by code_simp

lemma split_points_on_example:
  assumes "library_on_example lib"
  shows "split_points lib [1, 2, 3, 3, 4, 4, 4, 5, 6, 7] = Inr ([7, 3, 4], [5], [1, 2, 6])"
proof -
  from assms have u: "set_list lib [1, 2, 3, 3, 4, 4, 4, 5, 6, 7] = [1, 2, 3, 4, 5, 6, 7]"
    and nt: "n_test lib 7 = 3" and nv: "n_val lib 4 = 1"
    and p7: "permutation lib 7 = [0, 1, 5, 2, 4, 3, 6]"
    and p4: "permutation lib 4 = [1, 3, 0, 2]"
    by (simp_all add: library_on_example_def)
  have l7: "length [1, 2, 3, 4, 5, 6, 7 :: int] = 7" by simp
  have l4: "length [3, 5, 4, 7 :: int] = 4" by simp
  have s1: "train_test_split (n_test lib (length [1, 2, 3, 4, 5, 6, 7 :: int])) (permutation lib)
              [1, 2, 3, 4, 5, 6, 7 :: int] = Inr ([3, 5, 4, 7], [1, 2, 6])"
    unfolding train_test_split_def Let_def l7 nt p7 by simp
  have s2: "train_test_split (n_val lib (length [3, 5, 4, 7 :: int])) (permutation lib)
              [3, 5, 4, 7 :: int] = Inr ([7, 3, 4], [5])"
    unfolding train_test_split_def Let_def l4 nv p4 by simp
  show ?thesis
    unfolding split_points_def Let_def u s1 sum.case prod.case s2 by simp
qed

lemma split_dataset_unfold:
  "sequence_points sequences = Inr points \<Longrightarrow>
   split_points lib points = Inr (train_points, val_points, test_points) \<Longrightarrow>
   split_dataset lib g sequences labels =
     split_with_points (choice lib) g sequences labels points train_points val_points test_points"
  by (simp add: split_dataset_def split_with_points_def)

lemma draw_seed_42: "draw_choice [1608637542] [0, 1] 1 = ([0], [])"
  by (simp add: draw_choice_def bit_length.simps Let_def)

lemma draw_seed_1: "draw_choice [1791095845] [0, 1] 1 = ([1], [])"
  by (simp add: draw_choice_def bit_length.simps Let_def)

lemma draw_none: "draw_choice g [2, 3, 4] 0 = ([], g)"
  by (simp add: draw_choice_def bit_length.simps Let_def)

lemma example_train_indices:
  "indices_in [1, 2, 3, 3, 4, 4, 4, 5, 6, 7] [7, 3, 4] = [2, 3, 4, 5, 6, 9]"
  "indices_in [1, 2, 3, 3, 4, 4, 4, 5, 6, 7] [5] = [7]"
  "indices_in [1, 2, 3, 3, 4, 4, 4, 5, 6, 7] [1, 2, 6] = [0, 1, 8]"
  by code_simp+

lemma example_selects:
  "select example_labels [2, 3, 4, 5, 6, 9] = Inr [1, 1, 2, 2, 2, 0]"
  "select example_labels [7] = Inr [2]"
  "select example_labels [0, 1, 8] = Inr [0, 0, 1]"
  "select example_labels [2, 3, 4, 5, 6, 9, 2] = Inr [1, 1, 2, 2, 2, 0, 1]"
  "select example_labels [2, 3, 4, 5, 6, 9, 3] = Inr [1, 1, 2, 2, 2, 0, 1]"
  by code_simp+

lemma example_strategy:
  "np_unique [1, 1, 2, 2, 2, 0] = [0, 1, 2]"
  "not_minority [1, 1, 2, 2, 2, 0] = [(1, 1), (2, 0)]"
  "filter (\<lambda>i. [1, 1, 2, 2, 2, 0 :: int] ! i = 1) [0..<length [1, 1, 2, 2, 2, 0 :: int]] = [0, 1]"
  "filter (\<lambda>i. [1, 1, 2, 2, 2, 0 :: int] ! i = 2) [0..<length [1, 1, 2, 2, 2, 0 :: int]] = [2, 3, 4]"
  by code_simp+

lemma fit_resample_on_example:
  assumes "fst (ch g [0, 1] 1) = [i]" "i = 0 \<or> i = 1"
    and "fst (ch (snd (ch g [0, 1] 1)) [2, 3, 4] 0) = []"
  shows "fit_resample ch g [2, 3, 4, 5, 6, 9] [1, 1, 2, 2, 2, 0] =
           Inr ([2, 3, 4, 5, 6, 9, [2, 3] ! i], [1, 1, 2, 2, 2, 0, 1],
                snd (ch (snd (ch g [0, 1] 1)) [2, 3, 4] 0))"
proof -
  have b: "bootstrap ch g [1, 1, 2, 2, 2, 0] [(1, 1), (2, 0)] =
             ([i], snd (ch (snd (ch g [0, 1] 1)) [2, 3, 4] 0))"
    unfolding bootstrap.simps Let_def example_strategy(3,4) assms(1,3) by simp
  have u: "[0..<length [1, 1, 2, 2, 2, 0 :: int]] = [0, 1, 2, 3, 4, 5]"
    by (simp add: upt_rec)
  show ?thesis
    unfolding fit_resample_def Let_def example_strategy b u
    using assms(2) by auto
qed

lemma split_with_points_on_example:
  assumes "fst (ch g [0, 1] 1) = [i]" "i = 0 \<or> i = 1"
    and "fst (ch (snd (ch g [0, 1] 1)) [2, 3, 4] 0) = []"
  shows "train_indices_of
           (split_with_points ch g example_sequences example_labels
              [1, 2, 3, 3, 4, 4, 4, 5, 6, 7] [7, 3, 4] [5] [1, 2, 6]) =
           Some [2, 3, 4, 5, 6, 9, [2, 3] ! i] \<and>
         train_labels_of
           (split_with_points ch g example_sequences example_labels
              [1, 2, 3, 3, 4, 4, 4, 5, 6, 7] [7, 3, 4] [5] [1, 2, 6]) =
           Some [1, 1, 2, 2, 2, 0, 1]"
proof -
  have s: "select example_labels [2, 3, 4, 5, 6, 9, [2, 3] ! i] = Inr [1, 1, 2, 2, 2, 0, 1]"
    using assms(2) example_selects(4,5) by auto
  show ?thesis
    unfolding split_with_points_def Let_def example_train_indices example_selects(1,2,3)
      sum.case fit_resample_on_example [OF assms] prod.case s
    by (simp add: train_indices_of_def train_labels_of_def)
qed

lemma example_point_list:
  "map (\<lambda>seq. POINT (seq ! 0)) example_sequences = [1, 2, 3, 3, 4, 4, 4, 5, 6, 7]"
  by code_simp

lemma split_dataset_on_example:
  assumes "library_on_example lib"
  shows "split_dataset lib g example_sequences example_labels =
           split_with_points (choice lib) g example_sequences example_labels
             [1, 2, 3, 3, 4, 4, 4, 5, 6, 7] [7, 3, 4] [5] [1, 2, 6]"
  using example_points split_points_on_example [OF assms] by (rule split_dataset_unfold)

lemma runs_with_draw_choice:
  assumes "library_on_example lib" and "choice lib = draw_choice"
  shows "train_indices_of (split_dataset lib [1608637542] example_sequences example_labels) =
           Some [2, 3, 4, 5, 6, 9, 2]"
    and "train_indices_of (split_dataset lib [1791095845] example_sequences example_labels) =
           Some [2, 3, 4, 5, 6, 9, 3]"
proof -
  have a: "fst (draw_choice [1608637542] [0, 1] 1) = [0]"
    by (simp only: draw_seed_42 fst_conv)
  have a': "fst (draw_choice (snd (draw_choice [1608637542] [0, 1] 1)) [2, 3, 4] 0) = []"
    by (simp only: draw_none fst_conv)
  have b: "fst (draw_choice [1791095845] [0, 1] 1) = [1]"
    by (simp only: draw_seed_1 fst_conv)
  have b': "fst (draw_choice (snd (draw_choice [1791095845] [0, 1] 1)) [2, 3, 4] 0) = []"
    by (simp only: draw_none fst_conv)
  show "train_indices_of (split_dataset lib [1608637542] example_sequences example_labels) =
           Some [2, 3, 4, 5, 6, 9, 2]"
    using split_with_points_on_example [OF a _ a']
    by (simp add: split_dataset_on_example [OF assms(1)] assms(2))
  show "train_indices_of (split_dataset lib [1791095845] example_sequences example_labels) =
           Some [2, 3, 4, 5, 6, 9, 3]"
    using split_with_points_on_example [OF b _ b']
    by (simp add: split_dataset_on_example [OF assms(1)] assms(2))
qed

lemma example_library_choice: "choice example_library = draw_choice"
  by (simp add: example_library_def)

lemma example_split_points:
  "split_points example_library (map (\<lambda>seq. POINT (seq ! 0)) example_sequences) =
     Inr ([7, 3, 4], [5], [1, 2, 6])"
  unfolding example_point_list
  using example_library_on_example by (rule split_points_on_example)

lemma example_run:
  "train_indices_of
     (split_dataset example_library [1608637542] example_sequences example_labels) =
     Some [2, 3, 4, 5, 6, 9, 2]"
  using example_library_on_example example_library_choice by (rule runs_with_draw_choice(1))

lemma train_indices_of_Some:
  "train_indices_of res = Some idx \<Longrightarrow> res = Inr (fst (projr res), snd (projr res))"
  by (cases res) (simp_all add: train_indices_of_def)

text \<open>The run on the example, with the generator in the state that seed 42 leaves it
  in: points 7, 3, 4 train, point 5 validates, points 1, 2, 6 test.\<close>

theorem split_dataset_point_disjoint_witness:
  "library_ok example_library \<and>
   split_points example_library (map (\<lambda>seq. POINT (seq ! 0)) example_sequences) =
     Inr ([7, 3, 4], [5], [1, 2, 6]) \<and>
   train_indices_of
     (split_dataset example_library [1608637542] example_sequences example_labels) =
     Some [2, 3, 4, 5, 6, 9, 2] \<and>
   set (X_train (fst (projr
          (split_dataset example_library [1608637542] example_sequences example_labels)))) =
     {s \<in> set example_sequences. POINT (s ! 0) \<in> set [7, 3, 4]} \<and>
   X_val (fst (projr
          (split_dataset example_library [1608637542] example_sequences example_labels))) =
     filter (\<lambda>s. POINT (s ! 0) \<in> set [5]) example_sequences \<and>
   X_test (fst (projr
          (split_dataset example_library [1608637542] example_sequences example_labels))) =
     filter (\<lambda>s. POINT (s ! 0) \<in> set [1, 2, 6]) example_sequences"
proof -
  let ?res = "split_dataset example_library [1608637542] example_sequences example_labels"
  have sd: "?res = Inr (fst (projr ?res), snd (projr ?res))"
    using example_run by (rule train_indices_of_Some)
  from split_dataset_point_disjoint [OF example_library_ok example_split_points sd]
    example_library_ok example_split_points example_run
  show ?thesis by blast
qed

subsection \<open>Oversampling\<close>

text \<open>
  Claim C2. The claim says that after oversampling every label of the training part
  has the count \<open>M\<close> of its most frequent label. The code builds the oversampler with
  \<open>sampling_strategy='not minority'\<close>, which resamples every class except the least
  frequent one (see \<open>fit_resample_minority_unchanged\<close>). On the example, with what
  scikit-learn computes for it (\<open>library_on_example\<close>) and any generator whose draws
  are elements of the pool, the training labels before oversampling are
  \<open>[1, 1, 2, 2, 2, 0]\<close>, so \<open>M = 3\<close>; the returned training labels are
  \<open>[1, 1, 2, 2, 2, 0, 1]\<close>, in which label 0 still occurs once. (Each returned
  training label is the label of the sequence at the same resampled index, and the
  validation and test parts are not resampled, as the claim says.)
\<close>

theorem oversampling_leaves_minority:
  assumes "library_on_example lib" and "library_ok lib"
  shows "sequence_points example_sequences = Inr [1, 2, 3, 3, 4, 4, 4, 5, 6, 7] \<and>
         split_points lib [1, 2, 3, 3, 4, 4, 4, 5, 6, 7] = Inr ([7, 3, 4], [5], [1, 2, 6]) \<and>
         select example_labels (indices_in [1, 2, 3, 3, 4, 4, 4, 5, 6, 7] [7, 3, 4]) =
           Inr [1, 1, 2, 2, 2, 0] \<and>
         Max (set (map (count_list [1, 1, 2, 2, 2, 0 :: int]) [0, 1, 2])) = 3 \<and>
         train_labels_of (split_dataset lib g example_sequences example_labels) =
           Some [1, 1, 2, 2, 2, 0, 1] \<and>
         count_list [1, 1, 2, 2, 2, 0, 1 :: int] 0 = 1"
proof -
  let ?ch = "choice lib"
  have ch: "length (fst (?ch g' a k)) = k \<and> set (fst (?ch g' a k)) \<subseteq> set a"
    if "a \<noteq> []" for g' a k
    using assms(2) that by (simp add: library_ok_def)
  have "length (fst (?ch g [0, 1] 1)) = 1" "set (fst (?ch g [0, 1] 1)) \<subseteq> set [0, 1]"
    using ch [of "[0, 1]" g 1] by simp_all
  then obtain i where i: "fst (?ch g [0, 1] 1) = [i]" "i = 0 \<or> i = 1"
    by (cases "fst (?ch g [0, 1] 1)") auto
  have "length (fst (?ch (snd (?ch g [0, 1] 1)) [2, 3, 4] 0)) = 0"
    using ch [of "[2, 3, 4]" "snd (?ch g [0, 1] 1)" 0] by simp
  then have e: "fst (?ch (snd (?ch g [0, 1] 1)) [2, 3, 4] 0) = []" by simp
  have run: "train_labels_of (split_dataset lib g example_sequences example_labels) =
               Some [1, 1, 2, 2, 2, 0, 1]"
    using split_with_points_on_example [OF i e]
    by (simp add: split_dataset_on_example [OF assms(1)])
  have sel: "select example_labels (indices_in [1, 2, 3, 3, 4, 4, 4, 5, 6, 7] [7, 3, 4]) =
               Inr [1, 1, 2, 2, 2, 0]"
    by (simp only: example_train_indices example_selects)
  have m: "Max (set (map (count_list [1, 1, 2, 2, 2, 0 :: int]) [0, 1, 2])) = 3" by simp
  have c: "count_list [1, 1, 2, 2, 2, 0, 1 :: int] 0 = 1" by simp
  from example_points split_points_on_example [OF assms(1)] sel m run c
  show ?thesis by blast
qed

text \<open>The library on small inputs is such a library.\<close>

theorem oversampling_leaves_minority_witness:
  "library_on_example example_library \<and> library_ok example_library \<and>
   train_labels_of
     (split_dataset example_library [1608637542] example_sequences example_labels) =
     Some [1, 1, 2, 2, 2, 0, 1]"
  using oversampling_leaves_minority [OF example_library_on_example example_library_ok,
      of "[1608637542]"]
    example_library_on_example example_library_ok
  by blast

text \<open>
  Claim C3. The claim says that the oversampled training indices are determined by the
  inputs and the seed. The two \<open>train_test_split\<close> calls are seeded
  (\<open>random_state=42\<close>), so the partition of the points depends on the input alone; the
  oversampler is built without \<open>random_state\<close> and draws from the global generator of
  \<open>numpy.random\<close>, which the notebook never seeds. On the example, with what
  scikit-learn computes for it, label 1 lacks one sequence to the majority count and
  has two training sequences to draw it from; the draw is the lowest bit of the next
  32-bit number of the global generator. 1608637542 and 1791095845 are the first
  numbers the Mersenne Twister yields from the seeds 42 and 1: with the global
  generator in either state, the same sequences and labels give different multisets
  of training indices.
\<close>

theorem oversampling_depends_on_global_generator:
  assumes "library_on_example lib" and "choice lib = draw_choice"
  shows "train_indices_of (split_dataset lib [1608637542] example_sequences example_labels) =
           Some [2, 3, 4, 5, 6, 9, 2] \<and>
         train_indices_of (split_dataset lib [1791095845] example_sequences example_labels) =
           Some [2, 3, 4, 5, 6, 9, 3] \<and>
         mset [2, 3, 4, 5, 6, 9, 2 :: nat] \<noteq> mset [2, 3, 4, 5, 6, 9, 3]"
proof -
  have "count (mset [2, 3, 4, 5, 6, 9, 2 :: nat]) 2 \<noteq> count (mset [2, 3, 4, 5, 6, 9, 3 :: nat]) 2"
    by simp
  then have "mset [2, 3, 4, 5, 6, 9, 2 :: nat] \<noteq> mset [2, 3, 4, 5, 6, 9, 3]"
    by metis
  with runs_with_draw_choice [OF assms] show ?thesis by blast
qed

text \<open>The library on small inputs draws with \<open>draw_choice\<close>.\<close>

theorem oversampling_depends_on_global_generator_witness:
  "library_on_example example_library \<and> choice example_library = draw_choice \<and>
   train_indices_of
     (split_dataset example_library [1608637542] example_sequences example_labels) =
     Some [2, 3, 4, 5, 6, 9, 2] \<and>
   train_indices_of
     (split_dataset example_library [1791095845] example_sequences example_labels) =
     Some [2, 3, 4, 5, 6, 9, 3]"
  using oversampling_depends_on_global_generator
      [OF example_library_on_example example_library_choice]
    example_library_on_example example_library_choice
  by blast

end
